theory Spec2Isabelle
  imports Main "HOL-Library.Word"
begin

unbundle bit_operations_syntax

section \<open>The SRTLA receiver (\<^verbatim>\<open>src/main.cpp\<close>): data model\<close>

text \<open>
  The receiver keeps one process-wide vector \<^verbatim>\<open>conn_groups\<close> of shared pointers to
  groups; every group owns a vector of shared pointers to connections. The handlers
  compare and erase these objects by pointer, so every object of the model carries the
  address its shared pointer holds (\<open>gptr\<close>, \<open>cptr\<close>). A handler that writes through a
  pointer is modelled by storing the changed object back at that address
  (\<open>put_group\<close>, \<open>put_conn\<close>).

  Buffers, identifiers and socket addresses are byte lists. Time stamps (\<^verbatim>\<open>time_t\<close>) and
  the \<^verbatim>\<open>int\<close> results of the system calls are integers; no computation on them comes
  near the limits of their machine types.
\<close>

type_synonym byte = "8 word"
type_synonym bytes = "byte list"
type_synonym sockaddr = bytes

text \<open>
  Modelled from the spec: the two structures, which \<^verbatim>\<open>main.h\<close> declares. The fields are
  those \<^verbatim>\<open>main.cpp\<close> reads and writes, with the meaning section 3 of the specification
  gives them; a log entry is the four bytes of one \<^verbatim>\<open>uint32_t\<close>.
\<close>

record srtla_conn =
  cptr :: nat
  addr :: sockaddr
  last_rcvd :: int
  recv_idx :: nat
  recv_log :: "bytes list"

record srtla_conn_group =
  gptr :: nat
  gid :: bytes
  conns :: "srtla_conn list"
  created_at :: int
  srt_sock :: int
  last_addr :: sockaddr

text \<open>
  The global state: the registry and the function-local static \<^verbatim>\<open>last_ran\<close> of
  \<^verbatim>\<open>connection_cleanup\<close>.
\<close>

record state =
  conn_groups :: "srtla_conn_group list"
  last_ran :: int

text \<open>
  What a handler does to the outside world, in program order: a \<^verbatim>\<open>sendto\<close> on the listening
  socket, a \<^verbatim>\<open>send\<close> on a group's upstream socket, and the log lines (the format string,
  without its arguments).
\<close>

datatype event =
    SendTo sockaddr bytes
  | SendSrt int bytes
  | LogError string
  | LogInfo string
  | LogDebug string

text \<open>
  What the outside world answers during one run of a handler: the return value of each
  \<^verbatim>\<open>sendto\<close> (by destination and payload), the bytes \<^verbatim>\<open>/dev/urandom\<close> delivers, the
  address \<^verbatim>\<open>make_shared\<close> allocates, and the return values of \<^verbatim>\<open>socket\<close>, \<^verbatim>\<open>connect\<close>,
  \<^verbatim>\<open>epoll_ctl\<close> and \<^verbatim>\<open>send\<close> on the upstream socket.
\<close>

record env =
  sendto_ret :: "sockaddr \<Rightarrow> bytes \<Rightarrow> int"
  urandom :: bytes
  make_shared_ret :: nat
  socket_ret :: int
  connect_ret :: int
  epoll_add_ret :: int
  send_ret :: int

section \<open>Constants and codec of the absent header\<close>

text \<open>
  Modelled from the spec: the constants and the packet predicates of \<^verbatim>\<open>main.h\<close> and
  the codec it includes, which \<^verbatim>\<open>main.cpp\<close> only uses. The values are the
  reference values of the specification (sections 3, 4.1, 4.5, 5 and 6).
\<close>

definition MAX_GROUPS :: nat where "MAX_GROUPS = 200"
definition MAX_CONNS_PER_GROUP :: nat where "MAX_CONNS_PER_GROUP = 16"
definition RECV_ACK_INT :: nat where "RECV_ACK_INT = 10"
definition SRT_MIN_LEN :: int where "SRT_MIN_LEN = 16"
definition CONN_TIMEOUT :: int where "CONN_TIMEOUT = 10"
definition GROUP_TIMEOUT :: int where "GROUP_TIMEOUT = 10"
definition CLEANUP_PERIOD :: int where "CLEANUP_PERIOD = 3"
definition MTU :: nat where "MTU = 1500"
definition SRTLA_ID_LEN :: nat where "SRTLA_ID_LEN = 32"
definition SRTLA_TYPE_REG1 :: nat where "SRTLA_TYPE_REG1 = 0x9000"
definition SRTLA_TYPE_REG2 :: nat where "SRTLA_TYPE_REG2 = 0x9001"
definition SRTLA_TYPE_REG3 :: nat where "SRTLA_TYPE_REG3 = 0x9002"
definition SRTLA_TYPE_REG_ERR :: nat where "SRTLA_TYPE_REG_ERR = 0x9003"
definition SRTLA_TYPE_REG_NGP :: nat where "SRTLA_TYPE_REG_NGP = 0x9004"
definition SRTLA_TYPE_KEEPALIVE :: nat where "SRTLA_TYPE_KEEPALIVE = 0x9005"
definition SRTLA_TYPE_ACK :: nat where "SRTLA_TYPE_ACK = 0x9100"
definition SRTLA_TYPE_REG1_LEN :: nat where "SRTLA_TYPE_REG1_LEN = 2 + SRTLA_ID_LEN div 2"
definition SRTLA_TYPE_REG2_LEN :: nat where "SRTLA_TYPE_REG2_LEN = 2 + SRTLA_ID_LEN"

text \<open>
  Modelled from the spec: the control type of an SRT ACK. The specification names the
  type without its value; 2 is the value of the SRT wire format.
\<close>

definition SRT_CTRL_ACK :: nat where "SRT_CTRL_ACK = 2"

text \<open>\<^verbatim>\<open>sizeof(struct sockaddr)\<close>, the length of every address comparison.\<close>

definition addr_len :: nat where "addr_len = 16"

text \<open>
  \<^verbatim>\<open>htobe16\<close> and \<^verbatim>\<open>htobe32\<close>, as the bytes the result occupies in memory: the
  big-endian digits of the value.
\<close>

definition htobe16 :: "nat \<Rightarrow> bytes" where
  "htobe16 v = [of_nat (v div 2 ^ 8), of_nat v]"

definition htobe32 :: "nat \<Rightarrow> bytes" where
  "htobe32 v = [of_nat (v div 2 ^ 24), of_nat (v div 2 ^ 16), of_nat (v div 2 ^ 8), of_nat v]"

text \<open>
  Modelled from the spec: the 16-bit type field and the first 32-bit word of a datagram,
  both big-endian. A datagram too short to hold the field has type 0 and no word.
\<close>

definition get_srt_type :: "bytes \<Rightarrow> nat" where
  "get_srt_type pkt =
     (if length pkt < 2 then 0 else unat (pkt ! 0) * 2 ^ 8 + unat (pkt ! 1))"

definition first_word :: "bytes \<Rightarrow> nat" where
  "first_word pkt =
     unat (pkt ! 0) * 2 ^ 24 + unat (pkt ! 1) * 2 ^ 16 + unat (pkt ! 2) * 2 ^ 8 + unat (pkt ! 3)"

text \<open>
  Modelled from the spec (section 4.1): REG1 is a datagram of length
  \<open>2 + SRTLA_ID_LEN/2\<close> with type REG1, REG2 one of length \<open>2 + SRTLA_ID_LEN\<close> with type
  REG2, a keepalive has type KEEPALIVE. An SRT ACK has the high bit of its first word set
  and the control type of an ACK in the 15 bits below. The sequence number of a data
  packet (high bit clear) is its first word; any other packet has the number -1.
\<close>

definition is_srtla_reg1 :: "bytes \<Rightarrow> bool" where
  "is_srtla_reg1 pkt \<longleftrightarrow> length pkt = SRTLA_TYPE_REG1_LEN \<and> get_srt_type pkt = SRTLA_TYPE_REG1"

definition is_srtla_reg2 :: "bytes \<Rightarrow> bool" where
  "is_srtla_reg2 pkt \<longleftrightarrow> length pkt = SRTLA_TYPE_REG2_LEN \<and> get_srt_type pkt = SRTLA_TYPE_REG2"

definition is_srtla_keepalive :: "bytes \<Rightarrow> bool" where
  "is_srtla_keepalive pkt \<longleftrightarrow> get_srt_type pkt = SRTLA_TYPE_KEEPALIVE"

definition is_srt_ack :: "bytes \<Rightarrow> bool" where
  "is_srt_ack pkt \<longleftrightarrow>
     4 \<le> length pkt \<and> 2 ^ 31 \<le> first_word pkt \<and>
     (first_word pkt div 2 ^ 16) mod 2 ^ 15 = SRT_CTRL_ACK"

definition get_srt_sn :: "bytes \<Rightarrow> int" where
  "get_srt_sn pkt =
     (if length pkt < 4 then - 1
      else if first_word pkt < 2 ^ 31 then int (first_word pkt) else - 1)"

section \<open>Helper functions\<close>

text \<open>
  \<^verbatim>\<open>const_time_cmp\<close>: the differences of the first \<open>len\<close> bytes are or-ed into one
  \<^verbatim>\<open>char\<close>; the result is 0 when that byte is 0 and -1 otherwise. Only the low eight bits
  of each difference reach the accumulator, which is the subtraction of \<open>8 word\<close>.
\<close>

definition const_time_cmp :: "bytes \<Rightarrow> bytes \<Rightarrow> nat \<Rightarrow> int" where
  "const_time_cmp a b len =
     (if foldl (\<lambda>diff (ca, cb). diff OR (ca - cb)) 0 (zip (take len a) (take len b)) \<noteq> 0
      then - 1 else 0)"

text \<open>
  \<^verbatim>\<open>get_random_bytes\<close>: reads the requested number of bytes; the assertion stops the process (no
  result) when the read delivers fewer.
\<close>

definition get_random_bytes :: "env \<Rightarrow> nat \<Rightarrow> bytes option" where
  "get_random_bytes e sz =
     (if length (urandom e) < sz then None else Some (take sz (urandom e)))"

definition srtla_send_reg_err :: "sockaddr \<Rightarrow> event list" where
  "srtla_send_reg_err a = [SendTo a (htobe16 SRTLA_TYPE_REG_ERR)]"

section \<open>Connection and group management\<close>

fun group_find_by_id :: "srtla_conn_group list \<Rightarrow> bytes \<Rightarrow> srtla_conn_group option" where
  "group_find_by_id [] i = None"
| "group_find_by_id (g # gs) i =
     (if const_time_cmp (gid g) i SRTLA_ID_LEN = 0 then Some g
      else group_find_by_id gs i)"

text \<open>The inner loop of \<^verbatim>\<open>group_find_by_addr\<close>, over the connections of one group.\<close>

fun conn_find_by_addr :: "srtla_conn list \<Rightarrow> sockaddr \<Rightarrow> srtla_conn option" where
  "conn_find_by_addr [] a = None"
| "conn_find_by_addr (conn # cs) a =
     (if const_time_cmp (addr conn) a addr_len = 0 then Some conn
      else conn_find_by_addr cs a)"

text \<open>
  \<^verbatim>\<open>group_find_by_addr\<close>: one pass over the groups; for each group first its
  connections, then its \<open>last_addr\<close>. The pair is the two reference parameters
  \<^verbatim>\<open>rg\<close> and \<^verbatim>\<open>rc\<close>.
\<close>

fun group_find_by_addr ::
  "srtla_conn_group list \<Rightarrow> sockaddr \<Rightarrow> srtla_conn_group option \<times> srtla_conn option" where
  "group_find_by_addr [] a = (None, None)"
| "group_find_by_addr (g # gs) a =
     (case conn_find_by_addr (conns g) a of
        Some conn \<Rightarrow> (Some g, Some conn)
      | None \<Rightarrow>
          if const_time_cmp (last_addr g) a addr_len = 0 then (Some g, None)
          else group_find_by_addr gs a)"

text \<open>
  The constructor of a group: the client's half of the identifier, then the server's
  random half. \<open>last_addr\<close> is not initialised by the constructor (the caller assigns it
  at once); the model holds zero bytes there. Modelled from the spec: a new group has no
  upstream socket (``created lazily''), which is the descriptor -1 that
  \<^verbatim>\<open>handle_srtla_data\<close> tests for.
\<close>

definition new_srtla_conn_group :: "env \<Rightarrow> bytes \<Rightarrow> int \<Rightarrow> srtla_conn_group option" where
  "new_srtla_conn_group e client_id ts =
     (case get_random_bytes e (SRTLA_ID_LEN div 2) of
        None \<Rightarrow> None
      | Some server_id \<Rightarrow>
          Some \<lparr>gptr = make_shared_ret e,
                gid = take (SRTLA_ID_LEN div 2) client_id @ server_id,
                conns = [], created_at = ts, srt_sock = - 1,
                last_addr = replicate addr_len 0\<rparr>)"

text \<open>
  \<^verbatim>\<open>register_group\<close>. The result is the return code, the new state and the events; no
  result when the process stops in \<^verbatim>\<open>get_random_bytes\<close>.
\<close>

definition register_group ::
  "env \<Rightarrow> sockaddr \<Rightarrow> bytes \<Rightarrow> int \<Rightarrow> state \<Rightarrow> (int \<times> state \<times> event list) option" where
  "register_group e a in_buf ts s =
     (if MAX_GROUPS \<le> length (conn_groups s) then
        Some (- 1, s, srtla_send_reg_err a @
          [LogError ''Group registration failed: Max groups reached''])
      else
        (case group_find_by_addr (conn_groups s) a of
           (Some g, _) \<Rightarrow>
             Some (- 1, s, srtla_send_reg_err a @
               [LogError ''Group registration failed: Remote address already registered to group''])
         | (None, _) \<Rightarrow>
             (case new_srtla_conn_group e (drop 2 in_buf) ts of
                None \<Rightarrow> None
              | Some g0 \<Rightarrow>
                  let g = g0\<lparr>last_addr := a\<rparr>;
                      out_buf = htobe16 SRTLA_TYPE_REG2 @ take SRTLA_ID_LEN (gid g);
                      ret = sendto_ret e a out_buf
                  in if ret \<noteq> int SRTLA_TYPE_REG2_LEN then
                       Some (- 1, s, [SendTo a out_buf,
                         LogError ''Group registration failed: Send error''])
                     else
                       Some (0, s\<lparr>conn_groups := conn_groups s @ [g]\<rparr>,
                         [SendTo a out_buf, LogInfo ''Group registered'']))))"

text \<open>
  \<^verbatim>\<open>remove_group\<close>: erase-remove of every registry entry equal to the pointer; a null
  pointer is ignored. The destructor that runs when the last pointer to the group goes
  (it takes the upstream socket out of epoll and closes it) does not touch the registry
  and is left out of the model.
\<close>

definition remove_group :: "srtla_conn_group option \<Rightarrow> state \<Rightarrow> state" where
  "remove_group gp s =
     (case gp of
        None \<Rightarrow> s
      | Some g \<Rightarrow> s\<lparr>conn_groups := filter (\<lambda>g'. gptr g' \<noteq> gptr g) (conn_groups s)\<rparr>)"

text \<open>Writing an object back at the address its pointer holds.\<close>

definition put_conn :: "srtla_conn \<Rightarrow> srtla_conn list \<Rightarrow> srtla_conn list" where
  "put_conn c cs = map (\<lambda>c'. if cptr c' = cptr c then c else c') cs"

definition put_group :: "srtla_conn_group \<Rightarrow> state \<Rightarrow> state" where
  "put_group g s =
     s\<lparr>conn_groups := map (\<lambda>g'. if gptr g' = gptr g then g else g') (conn_groups s)\<rparr>"

text \<open>
  \<^verbatim>\<open>make_shared<srtla_conn>()\<close> value-initialises the connection: every field is zero.
\<close>

definition new_srtla_conn :: "env \<Rightarrow> srtla_conn" where
  "new_srtla_conn e =
     \<lparr>cptr = make_shared_ret e, addr = replicate addr_len 0, last_rcvd = 0, recv_idx = 0,
      recv_log = replicate RECV_ACK_INT (replicate 4 0)\<rparr>"

definition conn_reg ::
  "env \<Rightarrow> sockaddr \<Rightarrow> bytes \<Rightarrow> int \<Rightarrow> state \<Rightarrow> int \<times> state \<times> event list" where
  "conn_reg e a in_buf ts s =
     (case group_find_by_id (conn_groups s) (drop 2 in_buf) of
        None \<Rightarrow>
          (- 1, s, [SendTo a (htobe16 SRTLA_TYPE_REG_NGP),
            LogError ''Connection registration failed: No group found''])
      | Some g \<Rightarrow>
          (case group_find_by_addr (conn_groups s) a of (tmp, conn) \<Rightarrow>
             if tmp \<noteq> None \<and> map_option gptr tmp \<noteq> Some (gptr g) then
               (- 1, s, srtla_send_reg_err a @
                 [LogError ''Connection registration failed: Provided group ID mismatch''])
             else if conn = None \<and> MAX_CONNS_PER_GROUP \<le> length (conns g) then
               (- 1, s, srtla_send_reg_err a @
                 [LogError ''Connection registration failed: Max group conns reached''])
             else
               let already_registered = (conn \<noteq> None);
                   conn' = (case conn of
                       Some c \<Rightarrow> c
                     | None \<Rightarrow> (new_srtla_conn e)\<lparr>addr := a, recv_idx := 0, last_rcvd := ts\<rparr>);
                   header = htobe16 SRTLA_TYPE_REG3;
                   ret = sendto_ret e a header
               in if ret \<noteq> 2 then
                    (- 1, s, [SendTo a header,
                      LogError ''Connection registration failed: Socket send error''])
                  else
                    let g1 = (if \<not> already_registered
                              then g\<lparr>conns := conns g @ [conn']\<rparr> else g);
                        g2 = g1\<lparr>last_addr := a\<rparr>
                    in (0, put_group g2 s, [SendTo a header,
                         LogInfo ''Connection registration''])))"

section \<open>The network event handlers\<close>

text \<open>
  \<^verbatim>\<open>handle_srt_data\<close>, a datagram from the SRT server on the upstream socket of group
  \<open>g\<close> (the main loop passes \<open>group_find_by_id\<close> of the group's identifier; nothing
  happens on a null pointer). \<open>rcv\<close> is the result of \<^verbatim>\<open>recv\<close>: the bytes read, or no
  bytes when \<^verbatim>\<open>recv\<close> fails with -1.
\<close>

definition recv_len :: "bytes option \<Rightarrow> int" where
  "recv_len rcv = (case rcv of None \<Rightarrow> - 1 | Some buf \<Rightarrow> int (length buf))"

definition handle_srt_data ::
  "env \<Rightarrow> srtla_conn_group option \<Rightarrow> bytes option \<Rightarrow> state \<Rightarrow> state \<times> event list" where
  "handle_srt_data e gp rcv s =
     (case gp of
        None \<Rightarrow> (s, [])
      | Some g \<Rightarrow>
          let n = recv_len rcv; buf = (case rcv of None \<Rightarrow> [] | Some b \<Rightarrow> b)
          in if n < SRT_MIN_LEN then
               (remove_group (Some g) s,
                [LogError ''failed to read the SRT sock, terminating the group''])
             else if is_srt_ack buf then
               (s, concat (map (\<lambda>conn. SendTo (addr conn) buf #
                      (if sendto_ret e (addr conn) buf \<noteq> n
                       then [LogError ''failed to send the SRT ack''] else []))
                    (conns g)))
             else
               (s, SendTo (last_addr g) buf #
                     (if sendto_ret e (last_addr g) buf \<noteq> n
                      then [LogError ''failed to send the SRT packet''] else [])))"

text \<open>
  \<^verbatim>\<open>register_packet\<close>: the sequence number is stored as \<^verbatim>\<open>htobe32\<close> leaves it in
  memory; when the index reaches \<open>RECV_ACK_INT\<close> the header \<^verbatim>\<open>SRTLA_TYPE_ACK << 16\<close> and a
  copy of the whole log are sent to the connection's address, and the index starts again
  at 0. The index is below \<open>RECV_ACK_INT\<close> before every call (\<open>ring_ok\<close> below), so the
  write is always inside the array.
\<close>

definition register_packet :: "env \<Rightarrow> srtla_conn \<Rightarrow> int \<Rightarrow> srtla_conn \<times> event list" where
  "register_packet e c sn =
     (let c1 = c\<lparr>recv_log := (recv_log c)[recv_idx c := htobe32 (nat (sn mod 2 ^ 32))],
                 recv_idx := recv_idx c + 1\<rparr>
      in if recv_idx c1 = RECV_ACK_INT then
           let ack = htobe32 (SRTLA_TYPE_ACK * 2 ^ 16) @ concat (recv_log c1);
               ret = sendto_ret e (addr c1) ack
           in (c1\<lparr>recv_idx := 0\<rparr>,
               SendTo (addr c1) ack #
                 (if ret \<noteq> int (4 + 4 * RECV_ACK_INT)
                  then [LogError ''failed to send the srtla ack''] else []))
         else (c1, []))"

text \<open>
  The end of \<^verbatim>\<open>handle_srtla_data\<close>: the datagram is sent on the upstream socket; a
  result other than its length removes the group.
\<close>

definition srt_send ::
  "env \<Rightarrow> bytes \<Rightarrow> srtla_conn_group \<Rightarrow> state \<Rightarrow> event list \<Rightarrow> state \<times> event list" where
  "srt_send e buf g s evs =
     (if send_ret e \<noteq> int (length buf) then
        (remove_group (Some g) s, evs @ [SendSrt (srt_sock g) buf,
           LogError ''failed to forward the srtla packet, terminating the group''])
      else (s, evs @ [SendSrt (srt_sock g) buf]))"

text \<open>
  \<^verbatim>\<open>handle_srtla_data\<close>, a datagram on the listening socket. \<open>rcv\<close> is the result of
  \<^verbatim>\<open>recvfrom\<close>: the datagram and its source address, or nothing when the call fails.
  There is no result when the process stops inside \<open>register_group\<close>.
\<close>

definition handle_srtla_data ::
  "env \<Rightarrow> int \<Rightarrow> (bytes \<times> sockaddr) option \<Rightarrow> state \<Rightarrow> (state \<times> event list) option" where
  "handle_srtla_data e ts rcv s =
     (case rcv of
        None \<Rightarrow> Some (s, [LogError ''Failed to read a srtla packet''])
      | Some (buf, srtla_addr) \<Rightarrow>
          if is_srtla_reg1 buf then map_option snd (register_group e srtla_addr buf ts s)
          else if is_srtla_reg2 buf then Some (snd (conn_reg e srtla_addr buf ts s))
          else
            (case group_find_by_addr (conn_groups s) srtla_addr of (rg, rc) \<Rightarrow>
               (case rg of
                  None \<Rightarrow> Some (s, [])
                | Some g \<Rightarrow>
                    (case rc of
                       None \<Rightarrow> Some (s, [])
                     | Some c \<Rightarrow>
                         let n = int (length buf);
                             c1 = c\<lparr>last_rcvd := ts\<rparr>;
                             g1 = g\<lparr>conns := put_conn c1 (conns g)\<rparr>;
                             s1 = put_group g1 s
                         in if is_srtla_keepalive buf then
                              Some (s1, SendTo srtla_addr buf #
                                (if sendto_ret e srtla_addr buf \<noteq> n
                                 then [LogError ''failed to send the srtla keepalive'']
                                 else []))
                            else if n < SRT_MIN_LEN then Some (s1, [])
                            else
                              let g2 = g1\<lparr>last_addr := srtla_addr\<rparr>;
                                  sn = get_srt_sn buf;
                                  reg = (if 0 \<le> sn then register_packet e c1 sn else (c1, []));
                                  g3 = g2\<lparr>conns := put_conn (fst reg) (conns g2)\<rparr>;
                                  s3 = put_group g3 s1
                              in if srt_sock g3 < 0 then
                                   if socket_ret e < 0 then
                                     Some (remove_group (Some g3) s3, snd reg @
                                       [LogError ''failed to create an SRT socket''])
                                   else
                                     let g4 = g3\<lparr>srt_sock := socket_ret e\<rparr>;
                                         s4 = put_group g4 s3
                                     in if connect_ret e \<noteq> 0 then
                                          Some (remove_group (Some g4) s4, snd reg @
                                            [LogError ''failed to connect() the SRT socket''])
                                        else if epoll_add_ret e \<noteq> 0 then
                                          Some (remove_group (Some g4) s4, snd reg @
                                            [LogError ''failed to add the SRT socket to the epoll''])
                                        else Some (srt_send e buf g4 s4 (snd reg))
                                 else Some (srt_send e buf g3 s3 (snd reg))))))"

section \<open>Freeing resources\<close>

text \<open>
  The body of the loop of \<^verbatim>\<open>connection_cleanup\<close> for one group: the timed-out
  connections are collected, then each of them is erased from the group by pointer.
\<close>

definition cleanup_group :: "int \<Rightarrow> srtla_conn_group \<Rightarrow> srtla_conn_group \<times> event list" where
  "cleanup_group ts g =
     (let conns_to_remove = filter (\<lambda>conn. last_rcvd conn + CONN_TIMEOUT < ts) (conns g);
          g' = g\<lparr>conns := foldl (\<lambda>cs conn. filter (\<lambda>c'. cptr c' \<noteq> cptr conn) cs)
                             (conns g) conns_to_remove\<rparr>
      in (g', map (\<lambda>conn. LogInfo ''Connection removed (timed out)'') conns_to_remove))"

text \<open>
  \<^verbatim>\<open>connection_cleanup\<close>: nothing happens within \<open>CLEANUP_PERIOD\<close> of the last run or
  on an empty registry. Otherwise every group is swept; the groups left without
  connections and older than \<open>GROUP_TIMEOUT\<close> are collected, then removed one by one.
\<close>

definition connection_cleanup :: "int \<Rightarrow> state \<Rightarrow> state \<times> event list" where
  "connection_cleanup ts s =
     (if ts < last_ran s + CLEANUP_PERIOD then (s, [])
      else
        let s0 = s\<lparr>last_ran := ts\<rparr>
        in if conn_groups s0 = [] then (s0, [])
           else
             let swept = map (cleanup_group ts) (conn_groups s0);
                 s1 = s0\<lparr>conn_groups := map fst swept\<rparr>;
                 groups_to_remove =
                   filter (\<lambda>g. conns g = [] \<and> created_at g + GROUP_TIMEOUT < ts)
                     (conn_groups s1);
                 s2 = foldl (\<lambda>s' g. remove_group (Some g) s') s1 groups_to_remove
             in (s2, [LogDebug ''Starting a cleanup run...''] @ concat (map snd swept) @
                   map (\<lambda>g. LogInfo ''Group removed (no connections)'') groups_to_remove @
                   [LogDebug ''Clean up run ended'']))"

section \<open>The states the event loop reaches\<close>

text \<open>
  The loop of \<^verbatim>\<open>main\<close> starts from the empty registry and runs one handler at a time.
  A datagram read from the listening socket has at most \<open>MTU\<close> bytes and a source address
  of \<open>addr_len\<close> bytes, and the address \<^verbatim>\<open>make_shared\<close> returns belongs to no live object.
\<close>

definition live_ptrs :: "state \<Rightarrow> nat set" where
  "live_ptrs s =
     gptr ` set (conn_groups s) \<union> (\<Union>g \<in> set (conn_groups s). cptr ` set (conns g))"

definition dgram_ok :: "(bytes \<times> sockaddr) option \<Rightarrow> bool" where
  "dgram_ok rcv =
     (case rcv of None \<Rightarrow> True
      | Some (buf, a) \<Rightarrow> length buf \<le> MTU \<and> length a = addr_len)"

definition init_state :: state where
  "init_state = \<lparr>conn_groups = [], last_ran = 0\<rparr>"

inductive reachable :: "state \<Rightarrow> bool" where
  reach_init: "reachable init_state"
| reach_srtla:
    "reachable s \<Longrightarrow> dgram_ok rcv \<Longrightarrow> make_shared_ret e \<notin> live_ptrs s \<Longrightarrow>
     handle_srtla_data e ts rcv s = Some (s', evs) \<Longrightarrow> reachable s'"
| reach_srt:
    "reachable s \<Longrightarrow>
     handle_srt_data e (group_find_by_id (conn_groups s) i) rcv s = (s', evs) \<Longrightarrow> reachable s'"
| reach_cleanup:
    "reachable s \<Longrightarrow> connection_cleanup ts s = (s', evs) \<Longrightarrow> reachable s'"

section \<open>Runs of the event loop\<close>

text \<open>
  One event of the loop of \<^verbatim>\<open>main\<close>: the listening socket is readable (with the result
  of \<^verbatim>\<open>recvfrom\<close>), the upstream socket of the group with a given identifier is readable
  (with the result of \<^verbatim>\<open>recv\<close>), or the call of \<^verbatim>\<open>connection_cleanup\<close>. \<open>exec\<close> runs
  the handler of the event, and \<open>step_ok\<close> is the condition under which \<open>reachable\<close>
  admits it.
\<close>

datatype step =
    Srtla_in env int "(bytes \<times> sockaddr) option"
  | Srt_in env bytes "bytes option"
  | Cleanup int

fun exec :: "step \<Rightarrow> state \<Rightarrow> (state \<times> event list) option" where
  "exec (Srtla_in e ts rcv) s = handle_srtla_data e ts rcv s"
| "exec (Srt_in e i rcv) s =
     Some (handle_srt_data e (group_find_by_id (conn_groups s) i) rcv s)"
| "exec (Cleanup ts) s = Some (connection_cleanup ts s)"

fun step_ok :: "step \<Rightarrow> state \<Rightarrow> bool" where
  "step_ok (Srtla_in e ts rcv) s \<longleftrightarrow> dgram_ok rcv \<and> make_shared_ret e \<notin> live_ptrs s"
| "step_ok (Srt_in e i rcv) s \<longleftrightarrow> True"
| "step_ok (Cleanup ts) s \<longleftrightarrow> True"

text \<open>
  What the environment guarantees for the events of a run: each event is admitted in the
  state it arrives in, and \<^verbatim>\<open>/dev/urandom\<close> delivers the bytes \<open>get_random_bytes\<close> asks
  for, so that the assertion there holds.
\<close>

fun random_ok :: "step \<Rightarrow> bool" where
  "random_ok (Srtla_in e ts rcv) \<longleftrightarrow> SRTLA_ID_LEN div 2 \<le> length (urandom e)"
| "random_ok (Srt_in e i rcv) \<longleftrightarrow> True"
| "random_ok (Cleanup ts) \<longleftrightarrow> True"

text \<open>
  A run of the loop over a list of events, in any order and from any sources. The result
  lists, for every event handled, the state after its handler and the events the handler
  produced; the list ends where the process stops. \<open>admitted\<close> is the guarantee of the
  environment along the run.
\<close>

fun run :: "step list \<Rightarrow> state \<Rightarrow> (state \<times> event list) list" where
  "run [] s = []"
| "run (st # sts) s =
     (case exec st s of
        None \<Rightarrow> []
      | Some (s1, evs) \<Rightarrow> (s1, evs) # run sts s1)"

fun admitted :: "step list \<Rightarrow> state \<Rightarrow> bool" where
  "admitted [] s \<longleftrightarrow> True"
| "admitted (st # sts) s \<longleftrightarrow>
     step_ok st s \<and> random_ok st \<and>
     (case exec st s of None \<Rightarrow> True | Some (s1, evs) \<Rightarrow> admitted sts s1)"

text \<open>The state at the end of a run.\<close>

definition final :: "state \<Rightarrow> (state \<times> event list) list \<Rightarrow> state" where
  "final s tr = last (s # map fst tr)"

section \<open>Observations and invariants\<close>

text \<open>The datagrams sent on the listening socket and the error lines, in program order.\<close>

fun sends :: "event list \<Rightarrow> (sockaddr \<times> bytes) list" where
  "sends [] = []"
| "sends (SendTo a b # evs) = (a, b) # sends evs"
| "sends (ev # evs) = sends evs"

fun errors :: "event list \<Rightarrow> string list" where
  "errors [] = []"
| "errors (LogError m # evs) = m # errors evs"
| "errors (ev # evs) = errors evs"

text \<open>
  The addresses that resolve to a group: its \<open>last_addr\<close> and the addresses of its
  member connections.
\<close>

definition addrs_of :: "srtla_conn_group \<Rightarrow> sockaddr set" where
  "addrs_of g = insert (last_addr g) (addr ` set (conns g))"

definition ring_ok :: "srtla_conn \<Rightarrow> bool" where
  "ring_ok c \<longleftrightarrow>
     recv_idx c < RECV_ACK_INT \<and> length (recv_log c) = RECV_ACK_INT \<and>
     list_all (\<lambda>w. length w = 4) (recv_log c)"

text \<open>
  A well-formed group: identifier and addresses have the sizes of their C types, the
  connections are distinct objects with distinct addresses, every ring index is inside
  its array, whose entries are the four bytes of a \<^verbatim>\<open>uint32_t\<close>.
\<close>

definition group_ok :: "srtla_conn_group \<Rightarrow> bool" where
  "group_ok g \<longleftrightarrow>
     length (gid g) = SRTLA_ID_LEN \<and> length (last_addr g) = addr_len \<and>
     (\<forall>c \<in> set (conns g). length (addr c) = addr_len \<and> ring_ok c) \<and>
     distinct (map cptr (conns g)) \<and> distinct (map addr (conns g))"

text \<open>
  A well-formed registry: the groups are distinct objects, each well-formed, and no
  address resolves to two of them.
\<close>

definition registry_ok :: "srtla_conn_group list \<Rightarrow> bool" where
  "registry_ok gs \<longleftrightarrow>
     distinct (map gptr gs) \<and> (\<forall>g \<in> set gs. group_ok g) \<and>
     (\<forall>g \<in> set gs. \<forall>g' \<in> set gs. gptr g \<noteq> gptr g' \<longrightarrow> addrs_of g \<inter> addrs_of g' = {})"

text \<open>
  The upstream failures of \<^verbatim>\<open>handle_srtla_data\<close>: the socket is absent and cannot be
  created, connected or registered with epoll, or \<^verbatim>\<open>send\<close> does not return the length
  of the datagram.
\<close>

definition upstream_fails :: "env \<Rightarrow> srtla_conn_group \<Rightarrow> bytes \<Rightarrow> bool" where
  "upstream_fails e g buf \<longleftrightarrow>
     srt_sock g < 0 \<and> (socket_ret e < 0 \<or> connect_ret e \<noteq> 0 \<or> epoll_add_ret e \<noteq> 0) \<or>
     send_ret e \<noteq> int (length buf)"

text \<open>
  Whether an address is the address of a member connection of some group, and the part
  of a connection's ring that is in use: the entries logged since the last SRTLA ACK, in
  the order they were written.
\<close>

definition member_at :: "sockaddr \<Rightarrow> state \<Rightarrow> bool" where
  "member_at a s \<longleftrightarrow> (\<exists>g \<in> set (conn_groups s). a \<in> addr ` set (conns g))"

definition window :: "srtla_conn \<Rightarrow> bytes list" where
  "window c = take (recv_idx c) (recv_log c)"

text \<open>
  What one step of the loop brings for the connection at address \<open>a\<close>: the big-endian
  sequence number of an SRT data packet of at least \<open>SRT_MIN_LEN\<close> bytes read from \<open>a\<close>
  on the listening socket, and nothing for any other step.
\<close>

fun data_sn :: "sockaddr \<Rightarrow> step \<Rightarrow> bytes list" where
  "data_sn a (Srtla_in e ts (Some (buf, src))) =
     (if src = a \<and> SRT_MIN_LEN \<le> int (length buf) \<and> 0 \<le> get_srt_sn buf
      then [htobe32 (nat (get_srt_sn buf))] else [])"
| "data_sn a st = []"

text \<open>
  The SRTLA ACKs the receiver produces for address \<open>a\<close>: the datagrams of type
  \<open>SRTLA_TYPE_ACK\<close> that the handler of the listening socket sends to \<open>a\<close>, in one step
  and in a whole run. What \<open>handle_srt_data\<close> relays from the SRT server is not counted:
  those are the server's bytes, passed on as they are.
\<close>

fun acks_to :: "sockaddr \<Rightarrow> step \<Rightarrow> event list \<Rightarrow> bytes list" where
  "acks_to a (Srtla_in e ts rcv) evs =
     map snd (filter (\<lambda>(d, p). d = a \<and> get_srt_type p = SRTLA_TYPE_ACK) (sends evs))"
| "acks_to a st evs = []"

definition run_acks_to ::
  "sockaddr \<Rightarrow> step list \<Rightarrow> (state \<times> event list) list \<Rightarrow> bytes list" where
  "run_acks_to a sts tr = concat (map (\<lambda>(st, r). acks_to a st (snd r)) (zip sts tr))"

text \<open>The complete blocks of \<open>n\<close> consecutive elements of a list, in order.\<close>

fun blocks :: "nat \<Rightarrow> 'a list \<Rightarrow> 'a list list" where
  "blocks n xs = (if n = 0 \<or> length xs < n then [] else take n xs # blocks n (drop n xs))"

text \<open>
  The SRTLA ACK for a block of logged sequence numbers: the header
  \<^verbatim>\<open>SRTLA_TYPE_ACK << 16\<close> in network byte order, then the numbers.
\<close>

definition srtla_ack :: "bytes list \<Rightarrow> bytes" where
  "srtla_ack ws = [0x91, 0, 0, 0] @ concat ws"

section \<open>Example data\<close>

text \<open>
  An IPv4 peer address (family, port 5000, 10.0.0.k, padding), a group with two member
  connections, environments in which every system call succeeds or every \<^verbatim>\<open>sendto\<close>
  fails, and SRT packets of the minimum length.
\<close>

definition peer :: "byte \<Rightarrow> sockaddr" where
  "peer k = [2, 0, 0x13, 0x88, 10, 0, 0, k, 0, 0, 0, 0, 0, 0, 0, 0]"

definition example_conn :: "nat \<Rightarrow> byte \<Rightarrow> srtla_conn" where
  "example_conn p k =
     \<lparr>cptr = p, addr = peer k, last_rcvd = 100, recv_idx = 0,
      recv_log = replicate RECV_ACK_INT (replicate 4 0)\<rparr>"

definition example_id :: "byte \<Rightarrow> bytes" where
  "example_id k = replicate 16 k @ replicate 16 (k + 1)"

text \<open>
  The group as REG1 from \<open>peer 1\<close> creates it at time 90, and the same group after both
  peers have registered at time 100 and \<open>peer 1\<close> has sent a packet at time 105.
\<close>

definition registered_group :: srtla_conn_group where
  "registered_group =
     \<lparr>gptr = 1, gid = example_id 7, conns = [], created_at = 90, srt_sock = - 1,
      last_addr = peer 1\<rparr>"

definition registered_state :: state where
  "registered_state = \<lparr>conn_groups = [registered_group], last_ran = 100\<rparr>"

definition example_group :: srtla_conn_group where
  "example_group =
     \<lparr>gptr = 1, gid = example_id 7,
      conns = [(example_conn 11 1)\<lparr>last_rcvd := 105\<rparr>, example_conn 12 2],
      created_at = 90, srt_sock = 5, last_addr = peer 1\<rparr>"

definition example_state :: state where
  "example_state = \<lparr>conn_groups = [example_group], last_ran = 100\<rparr>"

definition env_ok :: env where
  "env_ok = \<lparr>sendto_ret = (\<lambda>a b. int (length b)), urandom = replicate 16 0x5a,
     make_shared_ret = 20, socket_ret = 6, connect_ret = 0, epoll_add_ret = 0,
     send_ret = 16\<rparr>"

definition env_fail :: env where
  "env_fail = env_ok\<lparr>sendto_ret := (\<lambda>a b. - 1)\<rparr>"

definition srt_ack_pkt :: bytes where
  "srt_ack_pkt = [0x80, 0x02, 0, 0] @ replicate 12 0"

definition srt_data_pkt :: "nat \<Rightarrow> bytes" where
  "srt_data_pkt sn = htobe32 sn @ replicate 12 0"

definition reg1_pkt :: "byte \<Rightarrow> bytes" where
  "reg1_pkt k = htobe16 SRTLA_TYPE_REG1 @ replicate 16 k"

definition reg2_pkt :: "bytes \<Rightarrow> bytes" where
  "reg2_pkt i = htobe16 SRTLA_TYPE_REG2 @ i"

text \<open>A keepalive as the sender emits it: the type and a time stamp.\<close>

definition keepalive_pkt :: bytes where
  "keepalive_pkt = htobe16 SRTLA_TYPE_KEEPALIVE @ replicate 8 0"

text \<open>
  The group a REG1 from \<open>peer 3\<close> adds to \<open>example_state\<close> at time 200, and the state
  with both groups.
\<close>

definition second_group :: srtla_conn_group where
  "second_group =
     \<lparr>gptr = 20, gid = replicate 16 9 @ replicate 16 0x5a, conns = [], created_at = 200,
      srt_sock = - 1, last_addr = peer 3\<rparr>"

definition two_group_state :: state where
  "two_group_state = \<lparr>conn_groups = [example_group, second_group], last_ran = 100\<rparr>"

text \<open>The result of a registration handler with its events reduced to the datagrams sent.\<close>

definition reply :: "int \<times> state \<times> event list \<Rightarrow> int \<times> state \<times> (sockaddr \<times> bytes) list" where
  "reply res = (case res of (r, s, evs) \<Rightarrow> (r, s, sends evs))"

text \<open>
  A run from \<open>example_state\<close>: eleven data packets from \<open>peer 2\<close> with the sequence
  numbers 1 to 11; in between two data packets from the other member \<open>peer 1\<close>, a
  keepalive and an SRT control packet from \<open>peer 2\<close>, an SRT ACK from the SRT server, a
  cleanup run, and the registration of a third connection from \<open>peer 3\<close>.
\<close>

definition example_run :: "step list" where
  "example_run =
     [Srtla_in env_ok 106 (Some (srt_data_pkt 1, peer 2)),
      Srtla_in env_ok 106 (Some (srt_data_pkt 101, peer 1)),
      Srtla_in env_ok 106 (Some (srt_data_pkt 2, peer 2)),
      Srtla_in env_ok 106 (Some (keepalive_pkt, peer 2)),
      Srt_in env_ok (example_id 7) (Some srt_ack_pkt),
      Srtla_in env_ok 107 (Some (srt_data_pkt 3, peer 2)),
      Srtla_in env_ok 107 (Some (srt_data_pkt 4, peer 2)),
      Cleanup 107,
      Srtla_in (env_ok\<lparr>make_shared_ret := 13\<rparr>) 107 (Some (reg2_pkt (example_id 7), peer 3)),
      Srtla_in env_ok 108 (Some (srt_data_pkt 5, peer 2)),
      Srtla_in env_ok 108 (Some (srt_data_pkt 102, peer 1)),
      Srtla_in env_ok 108 (Some (srt_data_pkt 6, peer 2)),
      Srtla_in env_ok 108 (Some (srt_ack_pkt, peer 2)),
      Srtla_in env_ok 108 (Some (srt_data_pkt 7, peer 2)),
      Srtla_in env_ok 109 (Some (srt_data_pkt 8, peer 2)),
      Srtla_in env_ok 109 (Some (srt_data_pkt 9, peer 2)),
      Srtla_in env_ok 109 (Some (srt_data_pkt 10, peer 2)),
      Srtla_in env_ok 109 (Some (srt_data_pkt 11, peer 2))]"

section \<open>Basic facts\<close>

lemma sends_append: "sends (xs @ ys) = sends xs @ sends ys"
  by (induction xs rule: sends.induct) auto

lemma errors_append: "errors (xs @ ys) = errors xs @ errors ys"
  by (induction xs rule: errors.induct) auto

section \<open>Relaying upstream datagrams\<close>

lemma sends_bcast:
  "sends (concat (map (\<lambda>conn. SendTo (addr conn) buf #
       (if P conn then [LogError m] else [])) cs))
     = map (\<lambda>conn. (addr conn, buf)) cs"
  by (induction cs) auto

lemma errors_bcast:
  "length (errors (concat (map (\<lambda>conn. SendTo (addr conn) buf #
       (if P conn then [LogError m] else [])) cs)))
     = length (filter P cs)"
  by (induction cs) auto

text \<open>
  C5. A datagram of at least \<open>SRT_MIN_LEN\<close> bytes read from the upstream socket of group
  \<open>g\<close> leaves the state as it is. An SRT ACK is sent, with the bytes as read, to the
  address of every member connection of \<open>g\<close>, in order; any other datagram is sent to
  \<open>last_addr\<close> of \<open>g\<close> only. Every \<^verbatim>\<open>sendto\<close> that does not return the length of the
  datagram produces one error line and nothing else.
\<close>

theorem srt_data_relay:
  assumes "SRT_MIN_LEN \<le> int (length buf)"
    and "handle_srt_data e (Some g) (Some buf) s = (s', evs)"
  shows "s' = s \<and>
     sends evs = (if is_srt_ack buf then map (\<lambda>conn. (addr conn, buf)) (conns g)
                  else [(last_addr g, buf)]) \<and>
     length (errors evs) =
       length (filter (\<lambda>(a, b). sendto_ret e a b \<noteq> int (length b)) (sends evs))"
  using assms
  by (auto simp: handle_srt_data_def recv_len_def Let_def sends_bcast errors_bcast
        filter_map comp_def split: if_splits)

theorem srt_data_relay_witness:
  "SRT_MIN_LEN \<le> int (length srt_ack_pkt) \<and> is_srt_ack srt_ack_pkt \<and>
   fst (handle_srt_data env_fail (Some example_group) (Some srt_ack_pkt) example_state)
     = example_state \<and>
   sends (snd (handle_srt_data env_fail (Some example_group) (Some srt_ack_pkt) example_state))
     = [(peer 1, srt_ack_pkt), (peer 2, srt_ack_pkt)] \<and>
   length (errors (snd (handle_srt_data env_fail (Some example_group) (Some srt_ack_pkt)
     example_state))) = 2"
proof -
  have 1: "SRT_MIN_LEN \<le> int (length srt_ack_pkt)"
    by (simp add: SRT_MIN_LEN_def srt_ack_pkt_def)
  have 2: "is_srt_ack srt_ack_pkt"
    by (simp add: is_srt_ack_def srt_ack_pkt_def first_word_def SRT_CTRL_ACK_def)
  obtain s' evs where
    h: "handle_srt_data env_fail (Some example_group) (Some srt_ack_pkt) example_state = (s', evs)"
    by (cases "handle_srt_data env_fail (Some example_group) (Some srt_ack_pkt) example_state")
  from srt_data_relay[OF 1 h] 2 show ?thesis
    using 1 h
    by (simp add: example_group_def example_conn_def env_fail_def env_ok_def srt_ack_pkt_def)
qed

section \<open>Registration and failed replies\<close>

lemma replicate_numeral: "replicate (numeral k) x = x # replicate (pred_numeral k) x"
  by (simp add: numeral_eq_Suc)

text \<open>
  C10. When the \<^verbatim>\<open>sendto\<close> of the REG3 reply does not return the two bytes of the
  header, \<open>conn_reg\<close> returns -1 and the state is the one it started from: no connection
  has been added and \<open>last_addr\<close> is as before. When the \<^verbatim>\<open>sendto\<close> of the REG2 reply
  does not return the length of the packet, \<open>register_group\<close> returns -1 and the state
  is the one it started from: the group it built is not in the registry.
\<close>

theorem registration_atomic:
  "(conn_reg e a in_buf ts s = (r, s', evs) \<and> sendto_ret e a (htobe16 SRTLA_TYPE_REG3) \<noteq> 2
      \<longrightarrow> r = - 1 \<and> s' = s) \<and>
   (register_group e a in_buf ts s = Some (r, s', evs) \<and>
      (\<forall>b. sendto_ret e a b \<noteq> int SRTLA_TYPE_REG2_LEN)
      \<longrightarrow> r = - 1 \<and> s' = s)"
  by (auto simp: conn_reg_def register_group_def Let_def
        split: option.splits if_splits prod.splits)

theorem registration_atomic_witness:
  "sendto_ret env_fail (peer 3) (htobe16 SRTLA_TYPE_REG3) \<noteq> 2 \<and>
   conn_reg env_fail (peer 3) (reg2_pkt (example_id 7)) 200 example_state =
     (- 1, example_state, [SendTo (peer 3) (htobe16 SRTLA_TYPE_REG3),
        LogError ''Connection registration failed: Socket send error'']) \<and>
   (\<forall>b. sendto_ret env_fail (peer 3) b \<noteq> int SRTLA_TYPE_REG2_LEN) \<and>
   register_group env_fail (peer 3) (reg1_pkt 9) 200 example_state =
     Some (- 1, example_state,
       [SendTo (peer 3) (htobe16 SRTLA_TYPE_REG2 @ replicate 16 9 @ replicate 16 0x5a),
        LogError ''Group registration failed: Send error''])"
proof -
  have f2: "sendto_ret env_fail (peer 3) (htobe16 SRTLA_TYPE_REG3) \<noteq> 2"
    by (simp add: env_fail_def)
  have f1: "\<forall>b. sendto_ret env_fail (peer 3) b \<noteq> int SRTLA_TYPE_REG2_LEN"
    by (simp add: env_fail_def)
  obtain r s' evs where
    c: "conn_reg env_fail (peer 3) (reg2_pkt (example_id 7)) 200 example_state = (r, s', evs)"
    by (cases "conn_reg env_fail (peer 3) (reg2_pkt (example_id 7)) 200 example_state")
  obtain r1 s1 evs1 where
    g: "register_group env_fail (peer 3) (reg1_pkt 9) 200 example_state = Some (r1, s1, evs1)"
    by (cases "register_group env_fail (peer 3) (reg1_pkt 9) 200 example_state")
       (auto simp: register_group_def example_state_def example_group_def example_conn_def
          peer_def const_time_cmp_def addr_len_def MAX_GROUPS_def new_srtla_conn_group_def
          get_random_bytes_def env_fail_def env_ok_def SRTLA_ID_LEN_def Let_def
          replicate_numeral)
  from registration_atomic[of env_fail "peer 3" "reg2_pkt (example_id 7)" 200 example_state r s' evs]
    c f2 have c': "r = - 1 \<and> s' = example_state" by blast
  from registration_atomic[of env_fail "peer 3" "reg1_pkt 9" 200 example_state r1 s1 evs1]
    g f1 have g': "r1 = - 1 \<and> s1 = example_state" by blast
  have ce: "evs = [SendTo (peer 3) (htobe16 SRTLA_TYPE_REG3),
        LogError ''Connection registration failed: Socket send error'']"
    using c
    by (simp add: conn_reg_def example_state_def example_group_def example_id_def reg2_pkt_def
        htobe16_def SRTLA_ID_LEN_def const_time_cmp_def example_conn_def peer_def addr_len_def
        env_fail_def env_ok_def MAX_CONNS_PER_GROUP_def replicate_numeral)
  have ge: "evs1 = [SendTo (peer 3) (htobe16 SRTLA_TYPE_REG2 @ replicate 16 9 @ replicate 16 0x5a),
        LogError ''Group registration failed: Send error'']"
    using g
    by (simp add: register_group_def example_state_def example_group_def example_conn_def
          peer_def const_time_cmp_def addr_len_def MAX_GROUPS_def new_srtla_conn_group_def
          get_random_bytes_def env_fail_def env_ok_def SRTLA_ID_LEN_def Let_def reg1_pkt_def
          htobe16_def replicate_numeral)
  from f1 f2 c g c' g' ce ge show ?thesis by simp
qed

section \<open>Address comparison and lookup\<close>

lemma foldl_or_zero:
  "foldl (\<lambda>diff (ca, cb). diff OR (ca - cb)) d ps = (0::byte) \<longleftrightarrow>
     d = 0 \<and> (\<forall>(x, y) \<in> set ps. x = y)"
  by (induction ps arbitrary: d) (auto simp: or_eq_0_iff)

lemma const_time_cmp_eq:
  "length a = len \<Longrightarrow> length b = len \<Longrightarrow> const_time_cmp a b len = 0 \<longleftrightarrow> a = b"
  by (auto simp: const_time_cmp_def foldl_or_zero list_eq_iff_zip_eq)

lemma find_SomeD: "find P xs = Some x \<Longrightarrow> x \<in> set xs \<and> P x"
  by (induction xs) (auto split: if_splits)

lemma conn_find_conv:
  "\<forall>c \<in> set cs. length (addr c) = addr_len \<Longrightarrow> length a = addr_len \<Longrightarrow>
   conn_find_by_addr cs a = find (\<lambda>c. addr c = a) cs"
  by (induction cs) (auto simp: const_time_cmp_eq)

lemma find_by_addr_Cons:
  assumes "group_ok g" and "length a = addr_len"
  shows "group_find_by_addr (g # gs) a =
     (case find (\<lambda>c. addr c = a) (conns g) of
        Some c \<Rightarrow> (Some g, Some c)
      | None \<Rightarrow> if last_addr g = a then (Some g, None) else group_find_by_addr gs a)"
proof -
  from assms have "conn_find_by_addr (conns g) a = find (\<lambda>c. addr c = a) (conns g)"
    by (intro conn_find_conv) (auto simp: group_ok_def)
  moreover from assms have "const_time_cmp (last_addr g) a addr_len = 0 \<longleftrightarrow> last_addr g = a"
    by (intro const_time_cmp_eq) (auto simp: group_ok_def)
  ultimately show ?thesis by simp
qed

lemma find_by_addr_None:
  "\<forall>g \<in> set gs. group_ok g \<Longrightarrow> length a = addr_len \<Longrightarrow>
   fst (group_find_by_addr gs a) = None \<longleftrightarrow> (\<forall>g \<in> set gs. a \<notin> addrs_of g)"
proof (induction gs)
  case Nil
  then show ?case by simp
next
  case (Cons g gs)
  then have "group_ok g" by simp
  from find_by_addr_Cons[OF this Cons.prems(2)] Cons show ?case
    by (auto simp: addrs_of_def find_None_iff split: option.splits dest: find_SomeD)
qed

lemma find_by_addr_None_snd:
  "fst (group_find_by_addr gs a) = None \<Longrightarrow> snd (group_find_by_addr gs a) = None"
  by (induction gs) (auto split: option.splits if_splits)

lemma find_by_addr_Some:
  "\<forall>g \<in> set gs. group_ok g \<Longrightarrow> length a = addr_len \<Longrightarrow>
   group_find_by_addr gs a = (Some g, rc) \<Longrightarrow>
   g \<in> set gs \<and> a \<in> addrs_of g \<and>
   (case rc of Some c \<Rightarrow> c \<in> set (conns g) \<and> addr c = a
             | None \<Rightarrow> a \<notin> addr ` set (conns g) \<and> last_addr g = a)"
proof (induction gs)
  case Nil
  then show ?case by simp
next
  case (Cons g0 gs)
  then have "group_ok g0" by simp
  from find_by_addr_Cons[OF this Cons.prems(2)] Cons show ?case
    by (auto simp: addrs_of_def find_None_iff split: option.splits if_splits dest: find_SomeD)
qed

lemma gptr_inj:
  "distinct (map gptr gs) \<Longrightarrow> g \<in> set gs \<Longrightarrow> g' \<in> set gs \<Longrightarrow> gptr g = gptr g' \<Longrightarrow> g = g'"
  by (meson distinct_map inj_onD)

lemma addr_inj:
  "distinct (map addr cs) \<Longrightarrow> c \<in> set cs \<Longrightarrow> c' \<in> set cs \<Longrightarrow> addr c = addr c' \<Longrightarrow> c = c'"
  by (meson distinct_map inj_onD)

lemma find_by_addr_member:
  assumes ok: "registry_ok gs" and g: "g \<in> set gs" and c: "c \<in> set (conns g)"
  shows "group_find_by_addr gs (addr c) = (Some g, Some c)"
proof -
  from ok have gok: "\<forall>g \<in> set gs. group_ok g" by (simp add: registry_ok_def)
  with g c have len: "length (addr c) = addr_len" by (auto simp: group_ok_def)
  from c have mem: "addr c \<in> addrs_of g" by (simp add: addrs_of_def)
  obtain rg rc where r: "group_find_by_addr gs (addr c) = (rg, rc)" by (cases "group_find_by_addr gs (addr c)")
  have "rg \<noteq> None" using find_by_addr_None[OF gok len] g mem r by auto
  then obtain g' where rg: "rg = Some g'" by auto
  from find_by_addr_Some[OF gok len r[unfolded rg]]
  have g': "g' \<in> set gs" and a': "addr c \<in> addrs_of g'"
    and rc: "case rc of Some c' \<Rightarrow> c' \<in> set (conns g') \<and> addr c' = addr c
             | None \<Rightarrow> addr c \<notin> addr ` set (conns g') \<and> last_addr g' = addr c"
    by auto
  have "gptr g' = gptr g"
    using ok g g' a' mem unfolding registry_ok_def by blast
  with ok g g' have gg: "g' = g" by (auto simp: registry_ok_def dest: gptr_inj)
  from gok g have "distinct (map addr (conns g))" by (simp add: group_ok_def)
  with rc c gg have "rc = Some c" by (auto split: option.splits dest: addr_inj)
  with r rg gg show ?thesis by simp
qed


lemma registry_filter: "registry_ok gs \<Longrightarrow> registry_ok (filter P gs)"
  by (auto simp: registry_ok_def distinct_map_filter)

lemma registry_map:
  assumes ok: "registry_ok gs"
    and f: "\<And>g. g \<in> set gs \<Longrightarrow> gptr (f g) = gptr g \<and> group_ok (f g) \<and> addrs_of (f g) \<subseteq> addrs_of g"
  shows "registry_ok (map f gs)"
proof -
  have e: "map gptr (map f gs) = map gptr gs" using f by simp
  have d: "distinct (map gptr (map f gs))"
    unfolding e using ok by (simp add: registry_ok_def)
  have k: "addrs_of (f g) \<inter> addrs_of (f g') = {}"
    if "g \<in> set gs" "g' \<in> set gs" "gptr (f g) \<noteq> gptr (f g')" for g g'
  proof -
    from that f have "gptr g \<noteq> gptr g'" by simp
    with ok that have "addrs_of g \<inter> addrs_of g' = {}" by (simp add: registry_ok_def)
    with f[OF that(1)] f[OF that(2)] show ?thesis by blast
  qed
  show ?thesis unfolding registry_ok_def
  proof (intro conjI ballI impI)
    show "distinct (map gptr (map f gs))" by (rule d)
  next
    fix x assume "x \<in> set (map f gs)"
    then obtain h where "h \<in> set gs" "x = f h" by auto
    with f show "group_ok x" by blast
  next
    fix x y assume "x \<in> set (map f gs)" "y \<in> set (map f gs)" "gptr x \<noteq> gptr y"
    then obtain h h' where "h \<in> set gs" "x = f h" "h' \<in> set gs" "y = f h'" by auto
    with k \<open>gptr x \<noteq> gptr y\<close> show "addrs_of x \<inter> addrs_of y = {}" by blast
  qed
qed

lemma registry_put:
  assumes ok: "registry_ok gs" and g: "g \<in> set gs" and p: "gptr g2 = gptr g"
    and g2: "group_ok g2" and sub: "addrs_of g2 \<subseteq> addrs_of g \<union> A"
    and A: "\<And>h. h \<in> set gs \<Longrightarrow> gptr h \<noteq> gptr g \<Longrightarrow> addrs_of h \<inter> A = {}"
  shows "registry_ok (map (\<lambda>g'. if gptr g' = gptr g2 then g2 else g') gs)"
proof -
  let ?f = "\<lambda>g'. if gptr g' = gptr g2 then g2 else g'"
  have e: "map gptr (map ?f gs) = map gptr gs" by simp
  have d: "distinct (map gptr (map ?f gs))"
    unfolding e using ok by (simp add: registry_ok_def)
  have gok: "group_ok (?f h)" if "h \<in> set gs" for h
    using that ok g2 by (simp add: registry_ok_def)
  have sub': "addrs_of (?f h) \<subseteq> (if gptr h = gptr g then addrs_of g \<union> A else addrs_of h)" for h
    using sub p by simp
  have k: "addrs_of (?f h) \<inter> addrs_of (?f h') = {}"
    if h: "h \<in> set gs" "h' \<in> set gs" "gptr (?f h) \<noteq> gptr (?f h')" for h h'
  proof -
    from h(3) have ne: "gptr h \<noteq> gptr h'" by (auto split: if_splits)
    with ok h have dis: "addrs_of h \<inter> addrs_of h' = {}" by (simp add: registry_ok_def)
    show ?thesis
    proof (cases "gptr h = gptr g")
      case True
      with ok g h have hg: "h = g" by (auto simp: registry_ok_def dest: gptr_inj)
      from True ne have "gptr h' \<noteq> gptr g" by simp
      with A[OF h(2)] dis hg sub p show ?thesis by auto
    next
      case False
      show ?thesis
      proof (cases "gptr h' = gptr g")
        case True
        with ok g h have hg: "h' = g" by (auto simp: registry_ok_def dest: gptr_inj)
        with A[OF h(1) False] dis sub p False show ?thesis by auto
      next
        case False
        with \<open>gptr h \<noteq> gptr g\<close> dis p show ?thesis by simp
      qed
    qed
  qed
  show ?thesis unfolding registry_ok_def
  proof (intro conjI ballI impI)
    show "distinct (map gptr (map ?f gs))" by (rule d)
  next
    fix x assume "x \<in> set (map ?f gs)"
    then obtain h where "h \<in> set gs" "x = ?f h" by auto
    with gok show "group_ok x" by blast
  next
    fix x y assume "x \<in> set (map ?f gs)" "y \<in> set (map ?f gs)" "gptr x \<noteq> gptr y"
    then obtain h h' where "h \<in> set gs" "x = ?f h" "h' \<in> set gs" "y = ?f h'" by auto
    with k \<open>gptr x \<noteq> gptr y\<close> show "addrs_of x \<inter> addrs_of y = {}" by blast
  qed
qed

lemma registry_snoc:
  assumes ok: "registry_ok gs" and g: "group_ok g" and p: "gptr g \<notin> gptr ` set gs"
    and A: "\<And>h. h \<in> set gs \<Longrightarrow> addrs_of h \<inter> addrs_of g = {}"
  shows "registry_ok (gs @ [g])"
  using assms unfolding registry_ok_def by (auto simp: Int_commute)

section \<open>The cleanup run\<close>

lemma foldl_erase_conns:
  "foldl (\<lambda>cs conn. filter (\<lambda>c'. cptr c' \<noteq> cptr conn) cs) cs rs =
     filter (\<lambda>c'. cptr c' \<notin> cptr ` set rs) cs"
  by (induction rs arbitrary: cs) (auto intro: filter_cong)

lemma foldl_remove_group:
  "conn_groups (foldl (\<lambda>s' g. remove_group (Some g) s') s rs) =
     filter (\<lambda>g'. gptr g' \<notin> gptr ` set rs) (conn_groups s)"
  by (induction rs arbitrary: s) (auto simp: remove_group_def intro: filter_cong)

lemma foldl_remove_group_last_ran:
  "last_ran (foldl (\<lambda>s' g. remove_group (Some g) s') s rs) = last_ran s"
  by (induction rs arbitrary: s) (auto simp: remove_group_def)

lemma filter_by_ptr:
  assumes "distinct (map f xs)"
  shows "filter (\<lambda>x. f x \<notin> f ` set (filter P xs)) xs = filter (\<lambda>x. \<not> P x) xs"
proof (rule filter_cong[OF refl])
  fix x assume x: "x \<in> set xs"
  from assms have inj: "inj_on f (set xs)" by (simp add: distinct_map)
  show "(f x \<notin> f ` set (filter P xs)) = (\<not> P x)"
  proof
    assume "f x \<notin> f ` set (filter P xs)"
    with x show "\<not> P x" by auto
  next
    assume np: "\<not> P x"
    show "f x \<notin> f ` set (filter P xs)"
    proof
      assume "f x \<in> f ` set (filter P xs)"
      then obtain y where y: "y \<in> set xs" "P y" "f x = f y" by auto
      with inj x have "x = y" by (auto dest: inj_onD)
      with y np show False by simp
    qed
  qed
qed

lemma cleanup_group_conns:
  assumes "distinct (map cptr (conns g))"
  shows "fst (cleanup_group ts g) =
    g\<lparr>conns := filter (\<lambda>c. \<not> last_rcvd c + CONN_TIMEOUT < ts) (conns g)\<rparr>"
  using filter_by_ptr[OF assms, of "\<lambda>c. last_rcvd c + CONN_TIMEOUT < ts"]
  by (simp add: cleanup_group_def Let_def foldl_erase_conns)

lemma cleanup_group_gptr: "gptr (fst (cleanup_group ts g)) = gptr g"
  by (simp add: cleanup_group_def Let_def)

lemma cleanup_groups:
  assumes "registry_ok (conn_groups s)" and "last_ran s + CLEANUP_PERIOD \<le> ts"
  shows "conn_groups (fst (connection_cleanup ts s)) =
     filter (\<lambda>g. \<not> (conns g = [] \<and> created_at g + GROUP_TIMEOUT < ts))
       (map (\<lambda>g. g\<lparr>conns := filter (\<lambda>c. \<not> last_rcvd c + CONN_TIMEOUT < ts) (conns g)\<rparr>)
          (conn_groups s))"
proof (cases "conn_groups s = []")
  case True
  with assms show ?thesis by (simp add: connection_cleanup_def)
next
  case False
  let ?sw = "map (\<lambda>g. fst (cleanup_group ts g)) (conn_groups s)"
  have sw: "?sw = map (\<lambda>g. g\<lparr>conns := filter (\<lambda>c. \<not> last_rcvd c + CONN_TIMEOUT < ts) (conns g)\<rparr>)
          (conn_groups s)"
    using assms(1) by (auto simp: registry_ok_def group_ok_def cleanup_group_conns)
  have e: "map gptr ?sw = map gptr (conn_groups s)"
    by (simp add: cleanup_group_gptr comp_def)
  have d: "distinct (map gptr ?sw)"
    unfolding e using assms(1) by (simp add: registry_ok_def)
  have "conn_groups (fst (connection_cleanup ts s)) =
     filter (\<lambda>g'. gptr g' \<notin> gptr ` set (filter (\<lambda>g. conns g = [] \<and> created_at g + GROUP_TIMEOUT < ts) ?sw)) ?sw"
    using False assms(2)
    by (simp add: connection_cleanup_def Let_def foldl_remove_group comp_def)
  also have "\<dots> = filter (\<lambda>g. \<not> (conns g = [] \<and> created_at g + GROUP_TIMEOUT < ts)) ?sw"
    by (rule filter_by_ptr[OF d])
  finally show ?thesis by (simp only: sw)
qed

section \<open>The handlers keep the registry well-formed\<close>

lemma find_by_id_mem: "group_find_by_id gs i = Some g \<Longrightarrow> g \<in> set gs"
  by (induction gs) (auto split: if_splits)

lemma conn_groups_put_group [simp]:
  "conn_groups (put_group g s) = map (\<lambda>g'. if gptr g' = gptr g then g else g') (conn_groups s)"
  by (simp add: put_group_def)

lemma put_group_twice: "gptr g' = gptr g \<Longrightarrow> put_group g' (put_group g s) = put_group g' s"
  by (simp add: put_group_def comp_def)

lemma filter_put:
  "gptr g = p \<Longrightarrow>
   filter (\<lambda>x. gptr x \<noteq> p) (map (\<lambda>x. if gptr x = p then g else x) gs) =
   filter (\<lambda>x. gptr x \<noteq> p) gs"
  by (induction gs) auto

lemma remove_put_group:
  "gptr g' = gptr g \<Longrightarrow> remove_group (Some g') (put_group g s) = remove_group (Some g) s"
  by (simp add: put_group_def remove_group_def filter_put)

lemma registry_put_group:
  assumes "registry_ok (conn_groups s)" "g \<in> set (conn_groups s)" "gptr g2 = gptr g"
    "group_ok g2" "addrs_of g2 \<subseteq> addrs_of g \<union> A"
    "\<And>h. h \<in> set (conn_groups s) \<Longrightarrow> gptr h \<noteq> gptr g \<Longrightarrow> addrs_of h \<inter> A = {}"
  shows "registry_ok (conn_groups (put_group g2 s))"
  using registry_put[OF assms] by simp

lemma registry_remove_group:
  "registry_ok (conn_groups s) \<Longrightarrow> registry_ok (conn_groups (remove_group gp s))"
  by (cases gp) (simp_all add: remove_group_def registry_filter)

lemma others_disjoint:
  assumes "registry_ok gs" "g \<in> set gs" "a \<in> addrs_of g" "h \<in> set gs" "gptr h \<noteq> gptr g"
  shows "addrs_of h \<inter> {a} = {}"
  using assms unfolding registry_ok_def by blast

lemma register_group_ok:
  assumes ok: "registry_ok (conn_groups s)" and len: "length a = addr_len"
    and pk: "is_srtla_reg1 in_buf" and fresh: "make_shared_ret e \<notin> live_ptrs s"
    and r: "register_group e a in_buf ts s = Some (r, s', evs)"
  shows "registry_ok (conn_groups s')"
proof (cases "s' = s")
  case True
  with ok show ?thesis by simp
next
  case False
  from ok have gok: "\<forall>g \<in> set (conn_groups s). group_ok g" by (simp add: registry_ok_def)
  from False r obtain rc server_id where
    f: "group_find_by_addr (conn_groups s) a = (None, rc)"
    and rb: "get_random_bytes e (SRTLA_ID_LEN div 2) = Some server_id"
    and s': "s' = s\<lparr>conn_groups := conn_groups s @
        [\<lparr>gptr = make_shared_ret e, gid = take (SRTLA_ID_LEN div 2) (drop 2 in_buf) @ server_id,
          conns = [], created_at = ts, srt_sock = - 1, last_addr = a\<rparr>]\<rparr>"
    by (auto simp: register_group_def new_srtla_conn_group_def Let_def
          split: if_splits option.splits prod.splits)
  let ?g = "\<lparr>gptr = make_shared_ret e, gid = take (SRTLA_ID_LEN div 2) (drop 2 in_buf) @ server_id,
          conns = [], created_at = ts, srt_sock = - 1, last_addr = a\<rparr>"
  from rb have "length server_id = SRTLA_ID_LEN div 2"
    by (auto simp: get_random_bytes_def split: if_splits)
  with pk len have g: "group_ok ?g"
    by (simp add: group_ok_def is_srtla_reg1_def SRTLA_TYPE_REG1_LEN_def SRTLA_ID_LEN_def)
  from fresh have p: "gptr ?g \<notin> gptr ` set (conn_groups s)" by (simp add: live_ptrs_def)
  from find_by_addr_None[OF gok len] f
  have "\<forall>h \<in> set (conn_groups s). a \<notin> addrs_of h" by simp
  then have A: "\<And>h. h \<in> set (conn_groups s) \<Longrightarrow> addrs_of h \<inter> addrs_of ?g = {}"
    by (simp add: addrs_of_def)
  from registry_snoc[OF ok g p A] s' show ?thesis by simp
qed


lemma find_by_addr_conn_group:
  "group_find_by_addr gs a = (rg, Some c) \<Longrightarrow> rg \<noteq> None"
  using find_by_addr_None_snd[of gs a] by auto

lemma conn_reg_ok:
  assumes ok: "registry_ok (conn_groups s)" and len: "length a = addr_len"
    and fresh: "make_shared_ret e \<notin> live_ptrs s"
    and r: "conn_reg e a in_buf ts s = (r, s', evs)"
  shows "registry_ok (conn_groups s')"
proof (cases "s' = s")
  case True
  with ok show ?thesis by simp
next
  case False
  let ?gs = "conn_groups s"
  let ?c = "(new_srtla_conn e)\<lparr>addr := a, recv_idx := 0, last_rcvd := ts\<rparr>"
  from ok have gok: "\<forall>g \<in> set ?gs. group_ok g" and d: "distinct (map gptr ?gs)"
    by (simp_all add: registry_ok_def)
  from False r obtain g tmp conn where
    fid: "group_find_by_id ?gs (drop 2 in_buf) = Some g"
    and f: "group_find_by_addr ?gs a = (tmp, conn)"
    and same: "tmp = None \<or> map_option gptr tmp = Some (gptr g)"
    and s': "s' = put_group ((if conn = None then g\<lparr>conns := conns g @ [?c]\<rparr> else g)\<lparr>last_addr := a\<rparr>) s"
    by (auto simp: conn_reg_def Let_def split: if_splits option.splits prod.splits)
  from fid have g: "g \<in> set ?gs" by (rule find_by_id_mem)
  with gok have g_ok: "group_ok g" by simp
  have tmp_g: "tmp = Some g" if "tmp \<noteq> None"
  proof -
    from that obtain g' where t: "tmp = Some g'" by auto
    with same have "gptr g' = gptr g" by simp
    moreover from find_by_addr_Some[OF gok len f[unfolded t]] have "g' \<in> set ?gs" by simp
    ultimately show ?thesis using d g t by (auto dest: gptr_inj)
  qed
  show ?thesis
  proof (cases conn)
    case (Some c)
    with f have "tmp \<noteq> None" by (auto dest: find_by_addr_conn_group)
    then have t: "tmp = Some g" by (rule tmp_g)
    from find_by_addr_Some[OF gok len f[unfolded t Some]]
    have c: "c \<in> set (conns g)" "addr c = a" by simp_all
    let ?g2 = "g\<lparr>last_addr := a\<rparr>"
    from g_ok len have 1: "group_ok ?g2" by (simp add: group_ok_def)
    from c have 2: "addrs_of ?g2 \<subseteq> addrs_of g \<union> {}" by (auto simp: addrs_of_def)
    from registry_put_group[OF ok g _ 1 2] s' Some show ?thesis by simp
  next
    case None
    let ?g2 = "g\<lparr>conns := conns g @ [?c], last_addr := a\<rparr>"
    have notin: "a \<notin> addr ` set (conns g)" and others:
      "\<And>h. h \<in> set ?gs \<Longrightarrow> gptr h \<noteq> gptr g \<Longrightarrow> addrs_of h \<inter> {a} = {}"
    proof -
      show "a \<notin> addr ` set (conns g)"
      proof (cases tmp)
        case None
        with find_by_addr_None[OF gok len] f g show ?thesis by (auto simp: addrs_of_def)
      next
        case (Some g')
        then have "tmp = Some g" using tmp_g by simp
        from find_by_addr_Some[OF gok len f[unfolded this \<open>conn = None\<close>]]
        show ?thesis by simp
      qed
      fix h assume h: "h \<in> set ?gs" "gptr h \<noteq> gptr g"
      show "addrs_of h \<inter> {a} = {}"
      proof (cases tmp)
        case None
        with find_by_addr_None[OF gok len] f h show ?thesis by auto
      next
        case (Some g')
        then have "tmp = Some g" using tmp_g by simp
        from find_by_addr_Some[OF gok len f[unfolded this \<open>conn = None\<close>]]
        have "a \<in> addrs_of g" by simp
        from others_disjoint[OF ok g this h] show ?thesis .
      qed
    qed
    from fresh g have "make_shared_ret e \<notin> cptr ` set (conns g)"
      by (auto simp: live_ptrs_def)
    with g_ok len notin have 1: "group_ok ?g2"
      by (auto simp: group_ok_def new_srtla_conn_def ring_ok_def RECV_ACK_INT_def
            list_all_length)
    have 2: "addrs_of ?g2 \<subseteq> addrs_of g \<union> {a}" by (auto simp: addrs_of_def)
    from registry_put_group[OF ok g _ 1 2 others] s' None show ?thesis by simp
  qed
qed

lemma put_conn_cptr: "map cptr (put_conn c' cs) = map cptr cs"
  by (induction cs) (auto simp: put_conn_def)

lemma put_conn_addr:
  assumes "distinct (map cptr cs)" "c \<in> set cs" "cptr c' = cptr c" "addr c' = addr c"
  shows "map addr (put_conn c' cs) = map addr cs"
proof -
  have "\<And>x. x \<in> set cs \<Longrightarrow> cptr x = cptr c' \<Longrightarrow> x = c"
    using assms by (metis distinct_map inj_onD)
  then have "\<And>x. x \<in> set cs \<Longrightarrow> addr (if cptr x = cptr c' then c' else x) = addr x"
    using assms(4) by auto
  then show ?thesis by (simp add: put_conn_def)
qed

lemma set_put_conn: "set (put_conn c' cs) \<subseteq> insert c' (set cs)"
  by (auto simp: put_conn_def)

lemma group_ok_put_conn:
  assumes "group_ok g" "c \<in> set (conns g)" "cptr c' = cptr c" "addr c' = addr c" "ring_ok c'"
  shows "group_ok (g\<lparr>conns := put_conn c' (conns g)\<rparr>)"
    and "addr ` set (put_conn c' (conns g)) = addr ` set (conns g)"
proof -
  from assms have d: "distinct (map cptr (conns g))" by (simp add: group_ok_def)
  have m: "map addr (put_conn c' (conns g)) = map addr (conns g)"
    by (rule put_conn_addr[OF d assms(2,3,4)])
  from assms(1,2,4) have "length (addr c') = addr_len" by (auto simp: group_ok_def)
  with assms(1,5) set_put_conn[of c' "conns g"]
  have "\<forall>x \<in> set (put_conn c' (conns g)). length (addr x) = addr_len \<and> ring_ok x"
    by (auto simp: group_ok_def)
  with assms(1) m show "group_ok (g\<lparr>conns := put_conn c' (conns g)\<rparr>)"
    by (simp add: group_ok_def put_conn_cptr)
  from m show "addr ` set (put_conn c' (conns g)) = addr ` set (conns g)"
    by (metis set_map)
qed

lemma register_packet_keeps:
  "cptr (fst (register_packet e c sn)) = cptr c"
  "addr (fst (register_packet e c sn)) = addr c"
  "last_rcvd (fst (register_packet e c sn)) = last_rcvd c"
  by (simp_all add: register_packet_def Let_def)

lemma list_all_update:
  "list_all P xs \<Longrightarrow> P x \<Longrightarrow> list_all P (xs[i := x])"
  by (induction xs arbitrary: i) (auto split: nat.splits)

lemma register_packet_ring: "ring_ok c \<Longrightarrow> ring_ok (fst (register_packet e c sn))"
  by (auto simp: register_packet_def Let_def ring_ok_def RECV_ACK_INT_def htobe32_def
        intro: list_all_update)

lemma put_conn_twice: "cptr c' = cptr c \<Longrightarrow> put_conn c' (put_conn c cs) = put_conn c' cs"
  by (induction cs) (auto simp: put_conn_def)

lemma member_data_cases:
  assumes ok: "registry_ok (conn_groups s)" and len: "length a = addr_len"
    and f: "group_find_by_addr (conn_groups s) a = (Some g, Some c)"
    and n1: "\<not> is_srtla_reg1 buf" and n2: "\<not> is_srtla_reg2 buf"
    and h: "handle_srtla_data e ts (Some (buf, a)) s = Some (s', evs)"
  shows "\<exists>g'. gptr g' = gptr g \<and> group_ok g' \<and> addrs_of g' \<subseteq> addrs_of g \<and>
           (s' = put_group g' s \<or> s' = remove_group (Some g) s)"
proof -
  from ok have gok: "\<forall>g \<in> set (conn_groups s). group_ok g" by (simp add: registry_ok_def)
  from find_by_addr_Some[OF gok len f]
  have g: "g \<in> set (conn_groups s)" and c: "c \<in> set (conns g)" and ca: "addr c = a" by simp_all
  from gok g have g_ok: "group_ok g" by simp
  with c have c_ok: "ring_ok c" by (simp add: group_ok_def)
  define c1 where "c1 = c\<lparr>last_rcvd := ts\<rparr>"
  define c2 where "c2 = fst (if 0 \<le> get_srt_sn buf then register_packet e c1 (get_srt_sn buf) else (c1, []))"
  define g1 where "g1 = g\<lparr>conns := put_conn c1 (conns g)\<rparr>"
  define g3 where "g3 = g\<lparr>conns := put_conn c2 (conns g), last_addr := a\<rparr>"
  define g4 where "g4 = g3\<lparr>srt_sock := socket_ret e\<rparr>"
  have c1: "cptr c1 = cptr c" "addr c1 = addr c" "ring_ok c1"
    using c_ok by (simp_all add: c1_def ring_ok_def)
  have c2: "cptr c2 = cptr c" "addr c2 = addr c" "ring_ok c2"
    using c1 by (simp_all add: c2_def register_packet_keeps register_packet_ring)
  have g1: "gptr g1 = gptr g" "group_ok g1" "addrs_of g1 \<subseteq> addrs_of g"
    using group_ok_put_conn[OF g_ok c c1] by (simp_all add: g1_def addrs_of_def)
  have "group_ok (g\<lparr>conns := put_conn c2 (conns g)\<rparr>)"
    and a2: "addr ` set (put_conn c2 (conns g)) = addr ` set (conns g)"
    using group_ok_put_conn[OF g_ok c c2] by simp_all
  then have g3: "gptr g3 = gptr g" "group_ok g3" "addrs_of g3 \<subseteq> addrs_of g"
    using len c ca by (auto simp: g3_def group_ok_def addrs_of_def)
  then have g4: "gptr g4 = gptr g" "group_ok g4" "addrs_of g4 \<subseteq> addrs_of g"
    by (simp_all add: g4_def group_ok_def addrs_of_def)
  have e3: "g1\<lparr>last_addr := a, conns := put_conn c2 (conns g1)\<rparr> = g3"
    using c1 c2 by (simp add: g1_def g3_def put_conn_twice)
  have rm: "remove_group (Some g1) s = remove_group (Some g) s"
    "remove_group (Some g3) s = remove_group (Some g) s"
    "remove_group (Some g4) s = remove_group (Some g) s"
    using g1(1) g3(1) g4(1) by (simp_all add: remove_group_def)
  have "s' = put_group g1 s \<or> s' = put_group g3 s \<or> s' = put_group g4 s \<or>
        s' = remove_group (Some g) s"
    using h f n1 n2 g1(1) g3(1) g4(1)
    by (auto simp: handle_srtla_data_def Let_def srt_send_def put_group_twice remove_put_group
          c1_def[symmetric] g1_def[symmetric] c2_def[symmetric] e3 g4_def[symmetric] rm
          split: if_splits)
  with g1 g3 g4 show ?thesis by blast
qed

lemma handle_srtla_data_ok:
  assumes ok: "registry_ok (conn_groups s)" and dg: "dgram_ok rcv"
    and fresh: "make_shared_ret e \<notin> live_ptrs s"
    and h: "handle_srtla_data e ts rcv s = Some (s', evs)"
  shows "registry_ok (conn_groups s')"
proof (cases rcv)
  case None
  with h ok show ?thesis by (simp add: handle_srtla_data_def)
next
  case (Some p)
  obtain buf a where p: "p = (buf, a)" by (cases p)
  with dg Some have len: "length a = addr_len" by (simp add: dgram_ok_def)
  note rcv = Some[unfolded p]
  consider (reg1) "is_srtla_reg1 buf" | (reg2) "\<not> is_srtla_reg1 buf" "is_srtla_reg2 buf"
    | (data) "\<not> is_srtla_reg1 buf" "\<not> is_srtla_reg2 buf" by blast
  then show ?thesis
  proof cases
    case reg1
    with h rcv obtain r where "register_group e a buf ts s = Some (r, s', evs)"
      by (auto simp: handle_srtla_data_def)
    from register_group_ok[OF ok len reg1 fresh this] show ?thesis .
  next
    case reg2
    with h rcv obtain r where "conn_reg e a buf ts s = (r, s', evs)"
      by (cases "conn_reg e a buf ts s") (auto simp: handle_srtla_data_def)
    from conn_reg_ok[OF ok len fresh this] show ?thesis .
  next
    case data
    obtain rg rc where f: "group_find_by_addr (conn_groups s) a = (rg, rc)"
      by (cases "group_find_by_addr (conn_groups s) a")
    show ?thesis
    proof (cases "rg = None \<or> rc = None")
      case True
      with h rcv data f have "s' = s"
        by (auto simp: handle_srtla_data_def split: option.splits)
      with ok show ?thesis by simp
    next
      case False
      then obtain g c where gc: "rg = Some g" "rc = Some c" by auto
      from ok have gok: "\<forall>g \<in> set (conn_groups s). group_ok g" by (simp add: registry_ok_def)
      from find_by_addr_Some[OF gok len f[unfolded gc]] have g: "g \<in> set (conn_groups s)" by simp
      from member_data_cases[OF ok len f[unfolded gc] data h[unfolded rcv]]
      obtain g' where g': "gptr g' = gptr g" "group_ok g'" "addrs_of g' \<subseteq> addrs_of g \<union> {}"
        and s': "s' = put_group g' s \<or> s' = remove_group (Some g) s" by auto
      from s' show ?thesis
      proof
        assume "s' = put_group g' s"
        with registry_put_group[OF ok g g'] show ?thesis by simp
      next
        assume "s' = remove_group (Some g) s"
        with registry_remove_group[OF ok] show ?thesis by simp
      qed
    qed
  qed
qed

lemma handle_srt_data_ok:
  assumes "registry_ok (conn_groups s)" and "handle_srt_data e gp rcv s = (s', evs)"
  shows "registry_ok (conn_groups s')"
proof -
  from assms(2) have "s' = s \<or> s' = remove_group gp s"
    by (auto simp: handle_srt_data_def Let_def split: option.splits if_splits)
  with assms(1) registry_remove_group[OF assms(1)] show ?thesis by auto
qed

lemma group_ok_filter_conns:
  "group_ok g \<Longrightarrow> group_ok (g\<lparr>conns := filter P (conns g)\<rparr>)"
  by (auto simp: group_ok_def distinct_map_filter)

lemma connection_cleanup_ok:
  assumes ok: "registry_ok (conn_groups s)" and c: "connection_cleanup ts s = (s', evs)"
  shows "registry_ok (conn_groups s')"
proof (cases "ts < last_ran s + CLEANUP_PERIOD")
  case True
  with c ok show ?thesis by (simp add: connection_cleanup_def)
next
  case False
  let ?f = "\<lambda>g. g\<lparr>conns := filter (\<lambda>c. \<not> last_rcvd c + CONN_TIMEOUT < ts) (conns g)\<rparr>"
  have "registry_ok (map ?f (conn_groups s))"
  proof (rule registry_map[OF ok])
    fix g assume "g \<in> set (conn_groups s)"
    with ok have "group_ok g" by (simp add: registry_ok_def)
    then show "gptr (?f g) = gptr g \<and> group_ok (?f g) \<and> addrs_of (?f g) \<subseteq> addrs_of g"
      by (auto simp: group_ok_filter_conns addrs_of_def)
  qed
  then have "registry_ok (filter (\<lambda>g. \<not> (conns g = [] \<and> created_at g + GROUP_TIMEOUT < ts))
       (map ?f (conn_groups s)))"
    by (rule registry_filter)
  with cleanup_groups[OF ok, of ts] False c show ?thesis by simp
qed

lemma reachable_registry_ok: "reachable s \<Longrightarrow> registry_ok (conn_groups s)"
proof (induction rule: reachable.induct)
  case reach_init
  show ?case by (simp add: init_state_def registry_ok_def)
next
  case (reach_srtla s rcv e ts s' evs)
  then show ?case by (auto intro: handle_srtla_data_ok)
next
  case (reach_srt s e i rcv s' evs)
  then show ?case by (auto intro: handle_srt_data_ok)
next
  case (reach_cleanup s ts s' evs)
  then show ?case by (auto intro: connection_cleanup_ok)
qed

section \<open>Reachable examples\<close>

lemmas example_defs = example_state_def example_group_def example_conn_def example_id_def
  registered_state_def registered_group_def
  peer_def env_ok_def env_fail_def reg1_pkt_def reg2_pkt_def srt_ack_pkt_def

lemmas const_defs = MAX_GROUPS_def MAX_CONNS_PER_GROUP_def RECV_ACK_INT_def SRT_MIN_LEN_def
  CONN_TIMEOUT_def GROUP_TIMEOUT_def CLEANUP_PERIOD_def MTU_def SRTLA_ID_LEN_def
  SRTLA_TYPE_REG1_def SRTLA_TYPE_REG2_def SRTLA_TYPE_REG3_def SRTLA_TYPE_REG_ERR_def
  SRTLA_TYPE_REG_NGP_def SRTLA_TYPE_KEEPALIVE_def SRTLA_TYPE_ACK_def SRTLA_TYPE_REG1_LEN_def
  SRTLA_TYPE_REG2_LEN_def SRT_CTRL_ACK_def addr_len_def

lemmas codec_defs = htobe16_def htobe32_def get_srt_type_def first_word_def is_srtla_reg1_def
  is_srtla_reg2_def is_srtla_keepalive_def is_srt_ack_def get_srt_sn_def

lemma reachable_registered: "reachable registered_state"
proof -
  let ?s1 = "\<lparr>conn_groups = [], last_ran = 100\<rparr>"
  let ?e2 = "env_ok\<lparr>make_shared_ret := 1, urandom := replicate 16 8\<rparr>"
  have "connection_cleanup 100 init_state = (?s1, [])"
    by (simp add: connection_cleanup_def init_state_def CLEANUP_PERIOD_def)
  with reach_init have 1: "reachable ?s1"
    by (rule reach_cleanup)
  have "\<exists>evs. handle_srtla_data ?e2 90 (Some (reg1_pkt 7, peer 1)) ?s1
      = Some (registered_state, evs)"
    by (simp add: handle_srtla_data_def register_group_def new_srtla_conn_group_def
      get_random_bytes_def Let_def example_defs const_defs codec_defs replicate_numeral)
  then obtain evs2 where
    h2: "handle_srtla_data ?e2 90 (Some (reg1_pkt 7, peer 1)) ?s1 = Some (registered_state, evs2)" ..
  show ?thesis
    by (rule reach_srtla[OF 1 _ _ h2])
       (simp_all add: dgram_ok_def live_ptrs_def example_defs const_defs htobe16_def)
qed

lemma reachable_example: "reachable example_state"
proof -
  let ?s3 = "\<lparr>conn_groups = [registered_group\<lparr>conns := [example_conn 11 1]\<rparr>],
     last_ran = 100\<rparr>"
  let ?s4 = "\<lparr>conn_groups = [registered_group\<lparr>conns := [example_conn 11 1, example_conn 12 2],
     last_addr := peer 2\<rparr>], last_ran = 100\<rparr>"
  let ?e3 = "env_ok\<lparr>make_shared_ret := 11\<rparr>"
  let ?e4 = "env_ok\<lparr>make_shared_ret := 12\<rparr>"
  let ?e5 = "env_ok\<lparr>socket_ret := 5\<rparr>"
  have "\<exists>evs. handle_srtla_data ?e3 100 (Some (reg2_pkt (example_id 7), peer 1)) registered_state
      = Some (?s3, evs)"
    by (simp add: handle_srtla_data_def conn_reg_def new_srtla_conn_def put_group_def
      const_time_cmp_def Let_def example_defs const_defs codec_defs replicate_numeral)
  then obtain evs3 where
    h3: "handle_srtla_data ?e3 100 (Some (reg2_pkt (example_id 7), peer 1)) registered_state
      = Some (?s3, evs3)" ..
  have 3: "reachable ?s3"
    by (rule reach_srtla[OF reachable_registered _ _ h3])
       (simp_all add: dgram_ok_def live_ptrs_def example_defs const_defs htobe16_def)
  have "\<exists>evs. handle_srtla_data ?e4 100 (Some (reg2_pkt (example_id 7), peer 2)) ?s3
      = Some (?s4, evs)"
    by (simp add: handle_srtla_data_def conn_reg_def new_srtla_conn_def put_group_def
      const_time_cmp_def Let_def example_defs const_defs codec_defs replicate_numeral)
  then obtain evs4 where
    h4: "handle_srtla_data ?e4 100 (Some (reg2_pkt (example_id 7), peer 2)) ?s3 = Some (?s4, evs4)" ..
  have 4: "reachable ?s4"
    by (rule reach_srtla[OF 3 _ _ h4])
       (simp_all add: dgram_ok_def live_ptrs_def example_defs const_defs htobe16_def)
  have "\<exists>evs. handle_srtla_data ?e5 105 (Some (srt_ack_pkt, peer 1)) ?s4
      = Some (example_state, evs)"
    by (simp add: handle_srtla_data_def put_group_def put_conn_def srt_send_def
      const_time_cmp_def Let_def example_defs const_defs codec_defs replicate_numeral)
  then obtain evs5 where
    h5: "handle_srtla_data ?e5 105 (Some (srt_ack_pkt, peer 1)) ?s4 = Some (example_state, evs5)" ..
  show ?thesis
    by (rule reach_srtla[OF 4 _ _ h5])
       (simp_all add: dgram_ok_def live_ptrs_def example_defs const_defs htobe16_def)
qed

section \<open>Member addresses\<close>

lemma registry_member_addrs_distinct:
  "registry_ok gs \<Longrightarrow> distinct (concat (map (\<lambda>g. map addr (conns g)) gs))"
proof (induction gs)
  case Nil
  show ?case by simp
next
  case (Cons g gs)
  from Cons.prems have tl: "registry_ok gs" by (auto simp: registry_ok_def)
  from Cons.prems have d: "distinct (map addr (conns g))"
    by (simp add: registry_ok_def group_ok_def)
  have "addr ` set (conns g) \<inter> addr ` set (conns h) = {}" if "h \<in> set gs" for h
  proof -
    from Cons.prems that have "gptr g \<noteq> gptr h" by (auto simp: registry_ok_def)
    with Cons.prems that have "addrs_of g \<inter> addrs_of h = {}" by (simp add: registry_ok_def)
    then show ?thesis by (auto simp: addrs_of_def)
  qed
  with d Cons.IH[OF tl] show ?case by auto
qed

text \<open>
  C7. In every state the event loop reaches, the addresses of all member connections of
  all groups, listed group by group, are pairwise distinct: no address belongs to two
  connections of one group, and none to connections of two groups. The states reached
  are those any sequence of REG1, REG2 and data datagrams, upstream datagrams and cleanup
  runs leads to, so every handler preserves the property.
\<close>

theorem member_addresses_unique:
  "reachable s \<Longrightarrow> distinct (concat (map (\<lambda>g. map addr (conns g)) (conn_groups s)))"
  by (intro registry_member_addrs_distinct reachable_registry_ok)

theorem member_addresses_unique_witness:
  "reachable example_state \<and>
   concat (map (\<lambda>g. map addr (conns g)) (conn_groups example_state)) = [peer 1, peer 2] \<and>
   distinct (concat (map (\<lambda>g. map addr (conns g)) (conn_groups example_state)))"
  using member_addresses_unique[OF reachable_example] reachable_example
  by (simp add: example_state_def example_group_def example_conn_def)

section \<open>Lookup by address\<close>




section \<open>What a cleanup run removes\<close>

text \<open>
  C6. A cleanup run at time \<open>ts\<close> (one not skipped for being within \<open>CLEANUP_PERIOD\<close>
  of the last) keeps in every group exactly the connections that have not timed out
  (\<open>last_rcvd + CONN_TIMEOUT < ts\<close> fails), and then keeps exactly the groups that still
  have a connection or are not older than \<open>GROUP_TIMEOUT\<close>. A group with a connection
  that has not timed out stays in the registry.
\<close>

theorem cleanup_run:
  assumes "reachable s" and "last_ran s + CLEANUP_PERIOD \<le> ts"
    and "connection_cleanup ts s = (s', evs)"
  shows "conn_groups s' =
     filter (\<lambda>g. \<not> (conns g = [] \<and> created_at g + GROUP_TIMEOUT < ts))
       (map (\<lambda>g. g\<lparr>conns := filter (\<lambda>c. \<not> last_rcvd c + CONN_TIMEOUT < ts) (conns g)\<rparr>)
          (conn_groups s)) \<and>
     (\<forall>g \<in> set (conn_groups s). (\<exists>c \<in> set (conns g). \<not> last_rcvd c + CONN_TIMEOUT < ts)
        \<longrightarrow> gptr g \<in> gptr ` set (conn_groups s'))"
proof -
  let ?f = "\<lambda>g. g\<lparr>conns := filter (\<lambda>c. \<not> last_rcvd c + CONN_TIMEOUT < ts) (conns g)\<rparr>"
  from assms(1) have ok: "registry_ok (conn_groups s)" by (rule reachable_registry_ok)
  from cleanup_groups[OF ok assms(2)] assms(3)
  have 1: "conn_groups s' =
     filter (\<lambda>g. \<not> (conns g = [] \<and> created_at g + GROUP_TIMEOUT < ts)) (map ?f (conn_groups s))"
    by simp
  have "gptr g \<in> gptr ` set (conn_groups s')"
    if g: "g \<in> set (conn_groups s)" and c: "\<exists>c \<in> set (conns g). \<not> last_rcvd c + CONN_TIMEOUT < ts"
    for g
  proof -
    from c have "conns (?f g) \<noteq> []" by (auto simp: filter_empty_conv)
    with g have "?f g \<in> set (conn_groups s')" unfolding 1 by auto
    then have "gptr (?f g) \<in> gptr ` set (conn_groups s')" by (rule imageI)
    then show ?thesis by simp
  qed
  with 1 show ?thesis by blast
qed

theorem cleanup_run_witness:
  "reachable example_state \<and> last_ran example_state + CLEANUP_PERIOD \<le> 111 \<and>
   conn_groups (fst (connection_cleanup 111 example_state)) =
     [example_group\<lparr>conns := [(example_conn 11 1)\<lparr>last_rcvd := 105\<rparr>]\<rparr>] \<and>
   gptr example_group \<in> gptr ` set (conn_groups (fst (connection_cleanup 111 example_state))) \<and>
   last_ran example_state + CLEANUP_PERIOD \<le> 116 \<and>
   conn_groups (fst (connection_cleanup 116 example_state)) = []"
proof -
  have 2: "last_ran example_state + CLEANUP_PERIOD \<le> 116"
    by (simp add: example_state_def CLEANUP_PERIOD_def)
  obtain s2 evs2 where c2: "connection_cleanup 116 example_state = (s2, evs2)"
    by (cases "connection_cleanup 116 example_state")
  from cleanup_run[OF reachable_example 2 c2] c2 2
  have 3: "last_ran example_state + CLEANUP_PERIOD \<le> 116 \<and>
     conn_groups (fst (connection_cleanup 116 example_state)) = []"
    by (simp add: example_state_def example_group_def example_conn_def
          CONN_TIMEOUT_def GROUP_TIMEOUT_def)
  have 1: "last_ran example_state + CLEANUP_PERIOD \<le> 111"
    by (simp add: example_state_def CLEANUP_PERIOD_def)
  obtain s' evs where c: "connection_cleanup 111 example_state = (s', evs)"
    by (cases "connection_cleanup 111 example_state")
  from cleanup_run[OF reachable_example 1 c] c 1 3 reachable_example show ?thesis
    by (simp add: example_state_def example_group_def example_conn_def
          CONN_TIMEOUT_def GROUP_TIMEOUT_def)
qed

section \<open>A datagram from a member connection\<close>

lemma remove_group_gptr:
  "gptr g' = gptr g \<Longrightarrow> remove_group (Some g') s = remove_group (Some g) s"
  by (simp add: remove_group_def)

lemma member_data_result:
  assumes f: "group_find_by_addr (conn_groups s) a = (Some g, Some c)"
    and n1: "\<not> is_srtla_reg1 buf" and n2: "\<not> is_srtla_reg2 buf"
  shows "handle_srtla_data e ts (Some (buf, a)) s = Some
    (let c1 = c\<lparr>last_rcvd := ts\<rparr>;
         g1 = g\<lparr>conns := put_conn c1 (conns g)\<rparr>;
         reg = (if 0 \<le> get_srt_sn buf then register_packet e c1 (get_srt_sn buf) else (c1, []));
         g3 = g\<lparr>conns := put_conn (fst reg) (conns g), last_addr := a\<rparr>;
         g4 = (if srt_sock g < 0 then g3\<lparr>srt_sock := socket_ret e\<rparr> else g3)
     in if is_srtla_keepalive buf then
          (put_group g1 s, SendTo a buf #
             (if sendto_ret e a buf \<noteq> int (length buf)
              then [LogError ''failed to send the srtla keepalive''] else []))
        else if int (length buf) < SRT_MIN_LEN then (put_group g1 s, [])
        else if srt_sock g < 0 \<and> socket_ret e < 0 then
          (remove_group (Some g) s, snd reg @ [LogError ''failed to create an SRT socket''])
        else if srt_sock g < 0 \<and> connect_ret e \<noteq> 0 then
          (remove_group (Some g) s, snd reg @ [LogError ''failed to connect() the SRT socket''])
        else if srt_sock g < 0 \<and> epoll_add_ret e \<noteq> 0 then
          (remove_group (Some g) s,
           snd reg @ [LogError ''failed to add the SRT socket to the epoll''])
        else if send_ret e \<noteq> int (length buf) then
          (remove_group (Some g) s, snd reg @ [SendSrt (srt_sock g4) buf,
             LogError ''failed to forward the srtla packet, terminating the group''])
        else (put_group g4 s, snd reg @ [SendSrt (srt_sock g4) buf]))"
proof -
  define c1 where "c1 = c\<lparr>last_rcvd := ts\<rparr>"
  define reg where
    "reg = (if 0 \<le> get_srt_sn buf then register_packet e c1 (get_srt_sn buf) else (c1, []))"
  define g1 where "g1 = g\<lparr>conns := put_conn c1 (conns g)\<rparr>"
  define g3 where "g3 = g\<lparr>conns := put_conn (fst reg) (conns g), last_addr := a\<rparr>"
  have c2: "cptr (fst reg) = cptr c1"
    by (simp add: reg_def register_packet_keeps)
  have p: "gptr g1 = gptr g" "gptr g3 = gptr g" by (simp_all add: g1_def g3_def)
  have e3: "g1\<lparr>last_addr := a, conns := put_conn (fst reg) (conns g1)\<rparr> = g3"
    using c2 by (simp add: g1_def g3_def put_conn_twice)
  have rm: "remove_group (Some g3) s = remove_group (Some g) s"
    "remove_group (Some (g3\<lparr>srt_sock := socket_ret e\<rparr>)) s = remove_group (Some g) s"
    using p by (simp_all add: remove_group_def)
  have s3: "srt_sock g3 = srt_sock g" "srt_sock g1 = srt_sock g" by (simp_all add: g3_def g1_def)
  show ?thesis
    unfolding Let_def c1_def[symmetric] reg_def[symmetric] g1_def[symmetric] g3_def[symmetric]
    using f n1 n2 p
    by (simp add: handle_srtla_data_def Let_def srt_send_def put_group_twice remove_put_group
          c1_def[symmetric] g1_def[symmetric] reg_def[symmetric] e3 rm s3)
qed


lemma member_forward_fail:
  assumes "group_find_by_addr (conn_groups s) a = (Some g, Some c)"
    and "\<not> is_srtla_reg1 buf" and "\<not> is_srtla_reg2 buf"
    and "\<not> is_srtla_keepalive buf" and "SRT_MIN_LEN \<le> int (length buf)"
    and "upstream_fails e g buf"
  shows "\<exists>evs. handle_srtla_data e ts (Some (buf, a)) s = Some (remove_group (Some g) s, evs)"
  using assms(4,5,6) unfolding member_data_result[OF assms(1,2,3)] Let_def upstream_fails_def
  by auto

lemma member_forward_ok:
  assumes "group_find_by_addr (conn_groups s) a = (Some g, Some c)"
    and "\<not> is_srtla_reg1 buf" and "\<not> is_srtla_reg2 buf"
    and "\<not> is_srtla_keepalive buf" and "SRT_MIN_LEN \<le> int (length buf)"
    and "\<not> upstream_fails e g buf"
  shows "handle_srtla_data e ts (Some (buf, a)) s = Some
    (let reg = (if 0 \<le> get_srt_sn buf
                then register_packet e (c\<lparr>last_rcvd := ts\<rparr>) (get_srt_sn buf)
                else (c\<lparr>last_rcvd := ts\<rparr>, []));
         g3 = g\<lparr>conns := put_conn (fst reg) (conns g), last_addr := a\<rparr>;
         g4 = (if srt_sock g < 0 then g3\<lparr>srt_sock := socket_ret e\<rparr> else g3)
     in (put_group g4 s, snd reg @ [SendSrt (srt_sock g4) buf]))"
  using assms(4,5,6) unfolding member_data_result[OF assms(1,2,3)] Let_def upstream_fails_def
  by auto

lemma member_not_forwarded:
  assumes "group_find_by_addr (conn_groups s) a = (Some g, Some c)"
    and "\<not> is_srtla_reg1 buf" and "\<not> is_srtla_reg2 buf"
    and "is_srtla_keepalive buf \<or> int (length buf) < SRT_MIN_LEN"
  shows "handle_srtla_data e ts (Some (buf, a)) s = Some
    (put_group (g\<lparr>conns := put_conn (c\<lparr>last_rcvd := ts\<rparr>) (conns g)\<rparr>) s,
     if is_srtla_keepalive buf then
       SendTo a buf # (if sendto_ret e a buf \<noteq> int (length buf)
         then [LogError ''failed to send the srtla keepalive''] else [])
     else [])"
  using assms(4) unfolding member_data_result[OF assms(1,2,3)] Let_def
  by auto

section \<open>Fatal upstream failures\<close>

lemma find_by_addr_mem: "group_find_by_addr gs a = (Some g, rc) \<Longrightarrow> g \<in> set gs"
  by (induction gs) (auto split: option.splits if_splits)

lemma removed_not_found:
  "map_option gptr (group_find_by_id (conn_groups (remove_group (Some g) s)) i) \<noteq> Some (gptr g)"
  "map_option gptr (fst (group_find_by_addr (conn_groups (remove_group (Some g) s)) a))
     \<noteq> Some (gptr g)"
proof -
  let ?gs = "conn_groups (remove_group (Some g) s)"
  have n: "\<And>h. h \<in> set ?gs \<Longrightarrow> gptr h \<noteq> gptr g" by (simp add: remove_group_def)
  show "map_option gptr (group_find_by_id ?gs i) \<noteq> Some (gptr g)"
    using n by (cases "group_find_by_id ?gs i") (auto dest: find_by_id_mem)
  show "map_option gptr (fst (group_find_by_addr ?gs a)) \<noteq> Some (gptr g)"
    using n by (cases "group_find_by_addr ?gs a") (auto dest: find_by_addr_mem)
qed

lemma removed_members_unknown:
  assumes ok: "registry_ok (conn_groups s)" and g: "g \<in> set (conn_groups s)"
    and c: "c \<in> set (conns g)"
  shows "group_find_by_addr (conn_groups (remove_group (Some g) s)) (addr c) = (None, None)"
proof -
  let ?gs = "conn_groups (remove_group (Some g) s)"
  from registry_remove_group[OF ok] have ok': "registry_ok ?gs" .
  then have gok: "\<forall>h \<in> set ?gs. group_ok h" by (simp add: registry_ok_def)
  from ok g c have len: "length (addr c) = addr_len" by (auto simp: registry_ok_def group_ok_def)
  from c have m: "addr c \<in> addrs_of g" by (simp add: addrs_of_def)
  have "\<forall>h \<in> set ?gs. addr c \<notin> addrs_of h"
  proof
    fix h assume "h \<in> set ?gs"
    then have h: "h \<in> set (conn_groups s)" "gptr h \<noteq> gptr g" by (simp_all add: remove_group_def)
    from others_disjoint[OF ok g m h] show "addr c \<notin> addrs_of h" by simp
  qed
  with find_by_addr_None[OF gok len] have "fst (group_find_by_addr ?gs (addr c)) = None" by simp
  with find_by_addr_None_snd[OF this] show ?thesis by (simp add: prod_eq_iff)
qed

text \<open>
  C9. In a reachable state, for a group \<open>g\<close> of the registry: a forwardable datagram
  (no registration, no keepalive, at least \<open>SRT_MIN_LEN\<close> bytes) from the address of a
  member connection of \<open>g\<close> removes \<open>g\<close> when the upstream socket is absent and
  \<^verbatim>\<open>socket\<close>, \<^verbatim>\<open>connect\<close> or the epoll registration fails, or when \<^verbatim>\<open>send\<close> returns
  anything but the length of the datagram; a \<^verbatim>\<open>recv\<close> on the upstream socket of \<open>g\<close>
  that yields fewer than \<open>SRT_MIN_LEN\<close> bytes removes \<open>g\<close> as well. After the removal
  no lookup by identifier or by address returns \<open>g\<close>, and the addresses of the member
  connections of \<open>g\<close> resolve to no group at all.
\<close>

theorem upstream_failure_removes_group:
  assumes "reachable s" and "g \<in> set (conn_groups s)"
  shows "(c \<in> set (conns g) \<and> \<not> is_srtla_reg1 buf \<and> \<not> is_srtla_reg2 buf \<and>
          \<not> is_srtla_keepalive buf \<and> SRT_MIN_LEN \<le> int (length buf) \<and>
          (srt_sock g < 0 \<and> (socket_ret e < 0 \<or> connect_ret e \<noteq> 0 \<or> epoll_add_ret e \<noteq> 0)
             \<or> send_ret e \<noteq> int (length buf))
          \<longrightarrow> (\<exists>evs. handle_srtla_data e ts (Some (buf, addr c)) s =
                  Some (remove_group (Some g) s, evs))) \<and>
         (recv_len rcv < SRT_MIN_LEN
          \<longrightarrow> (\<exists>evs. handle_srt_data e (Some g) rcv s = (remove_group (Some g) s, evs))) \<and>
         (\<forall>i. map_option gptr (group_find_by_id (conn_groups (remove_group (Some g) s)) i)
            \<noteq> Some (gptr g)) \<and>
         (\<forall>a. map_option gptr (fst (group_find_by_addr (conn_groups (remove_group (Some g) s)) a))
            \<noteq> Some (gptr g)) \<and>
         (\<forall>c \<in> set (conns g).
            group_find_by_addr (conn_groups (remove_group (Some g) s)) (addr c) = (None, None))"
proof (intro conjI impI allI ballI)
  from assms(1) have ok: "registry_ok (conn_groups s)" by (rule reachable_registry_ok)
  {
    assume a: "c \<in> set (conns g) \<and> \<not> is_srtla_reg1 buf \<and> \<not> is_srtla_reg2 buf \<and>
          \<not> is_srtla_keepalive buf \<and> SRT_MIN_LEN \<le> int (length buf) \<and>
          (srt_sock g < 0 \<and> (socket_ret e < 0 \<or> connect_ret e \<noteq> 0 \<or> epoll_add_ret e \<noteq> 0)
             \<or> send_ret e \<noteq> int (length buf))"
    then have f: "group_find_by_addr (conn_groups s) (addr c) = (Some g, Some c)"
      using find_by_addr_member[OF ok assms(2)] by simp
    from a have "upstream_fails e g buf" by (simp add: upstream_fails_def)
    with a show "\<exists>evs. handle_srtla_data e ts (Some (buf, addr c)) s =
        Some (remove_group (Some g) s, evs)"
      by (intro member_forward_fail[OF f]) simp_all
  }
  {
    assume "recv_len rcv < SRT_MIN_LEN"
    then show "\<exists>evs. handle_srt_data e (Some g) rcv s = (remove_group (Some g) s, evs)"
      by (simp add: handle_srt_data_def Let_def)
  }
  {
    fix c assume "c \<in> set (conns g)"
    from removed_members_unknown[OF ok assms(2) this]
    show "group_find_by_addr (conn_groups (remove_group (Some g) s)) (addr c) = (None, None)" .
  }
qed (rule removed_not_found)+


theorem upstream_failure_removes_group_witness:
  "reachable example_state \<and> example_group \<in> set (conn_groups example_state) \<and>
   example_conn 12 2 \<in> set (conns example_group) \<and>
   \<not> is_srtla_reg1 (srt_data_pkt 5) \<and> \<not> is_srtla_reg2 (srt_data_pkt 5) \<and>
   \<not> is_srtla_keepalive (srt_data_pkt 5) \<and> SRT_MIN_LEN \<le> int (length (srt_data_pkt 5)) \<and>
   send_ret (env_ok\<lparr>send_ret := - 1\<rparr>) \<noteq> int (length (srt_data_pkt 5)) \<and>
   map_option (conn_groups \<circ> fst)
     (handle_srtla_data (env_ok\<lparr>send_ret := - 1\<rparr>) 106 (Some (srt_data_pkt 5, peer 2))
        example_state) = Some [] \<and>
   recv_len None < SRT_MIN_LEN \<and>
   conn_groups (fst (handle_srt_data (env_ok\<lparr>send_ret := - 1\<rparr>) (Some example_group) None
     example_state)) = [] \<and>
   group_find_by_id (conn_groups (remove_group (Some example_group) example_state))
     (gid example_group) = None \<and>
   group_find_by_addr (conn_groups (remove_group (Some example_group) example_state)) (peer 2)
     = (None, None)"
proof -
  let ?e = "env_ok\<lparr>send_ret := - 1\<rparr>"
  have g: "example_group \<in> set (conn_groups example_state)"
    by (simp add: example_state_def)
  have c: "example_conn 12 2 \<in> set (conns example_group)"
    by (simp add: example_group_def)
  have pk: "\<not> is_srtla_reg1 (srt_data_pkt 5) \<and> \<not> is_srtla_reg2 (srt_data_pkt 5) \<and>
     \<not> is_srtla_keepalive (srt_data_pkt 5) \<and> SRT_MIN_LEN \<le> int (length (srt_data_pkt 5))"
    by (simp add: srt_data_pkt_def codec_defs const_defs)
  have sr: "send_ret ?e \<noteq> int (length (srt_data_pkt 5))"
    by (simp add: srt_data_pkt_def htobe32_def)
  have rl: "recv_len None < SRT_MIN_LEN" by (simp add: recv_len_def SRT_MIN_LEN_def)
  have rm: "conn_groups (remove_group (Some example_group) example_state) = []"
    by (simp add: remove_group_def example_state_def)
  note th = upstream_failure_removes_group[where c = "example_conn 12 2"
      and buf = "srt_data_pkt 5" and e = ?e and ts = 106 and rcv = None,
      OF reachable_example g]
  from th c pk sr obtain evs where
    "handle_srtla_data ?e 106 (Some (srt_data_pkt 5, addr (example_conn 12 2))) example_state
       = Some (remove_group (Some example_group) example_state, evs)" by blast
  then have 1: "map_option (conn_groups \<circ> fst)
     (handle_srtla_data ?e 106 (Some (srt_data_pkt 5, peer 2)) example_state) = Some []"
    by (simp add: rm example_conn_def)
  from th rl obtain evs' where
    "handle_srt_data ?e (Some example_group) None example_state
       = (remove_group (Some example_group) example_state, evs')" by blast
  then have 2: "conn_groups (fst (handle_srt_data ?e (Some example_group) None example_state))
     = []" by (simp add: rm)
  from th c have 3: "group_find_by_addr
     (conn_groups (remove_group (Some example_group) example_state)) (peer 2) = (None, None)"
    by (auto simp: example_conn_def)
  from reachable_example g c pk sr rl 1 2 3 show ?thesis by (simp add: rm)
qed

section \<open>Datagrams on the listening socket\<close>

lemma non_member_dropped:
  assumes gok: "\<forall>g \<in> set (conn_groups s). group_ok g" and len: "length a = addr_len"
    and n1: "\<not> is_srtla_reg1 buf" and n2: "\<not> is_srtla_reg2 buf"
    and nm: "\<forall>g \<in> set (conn_groups s). a \<notin> addr ` set (conns g)"
  shows "handle_srtla_data e ts (Some (buf, a)) s = Some (s, [])"
proof -
  obtain rg rc where f: "group_find_by_addr (conn_groups s) a = (rg, rc)"
    by (cases "group_find_by_addr (conn_groups s) a")
  have "rg = None \<or> rc = None"
  proof (rule ccontr)
    assume "\<not> (rg = None \<or> rc = None)"
    then obtain g c where "rg = Some g" "rc = Some c" by auto
    with find_by_addr_Some[OF gok len] f have "g \<in> set (conn_groups s)" "c \<in> set (conns g)"
      "addr c = a" by auto
    with nm show False by auto
  qed
  with f n1 n2 show ?thesis
    by (auto simp: handle_srtla_data_def split: option.splits)
qed

text \<open>
  C8. In a reachable state, for a datagram from \<open>a\<close> that is neither REG1 nor REG2:
  when \<open>a\<close> is the address of no member connection (whether or not it is the
  \<open>last_addr\<close> of a group), nothing is sent or logged and the state stays as it is.
  When \<open>a\<close> is the address of the member connection \<open>c\<close> of \<open>g\<close>: a keepalive or a
  datagram shorter than \<open>SRT_MIN_LEN\<close> changes the state in \<open>last_rcvd\<close> of \<open>c\<close> only,
  which becomes \<open>ts\<close> (so \<open>last_addr\<close> of \<open>g\<close> stays); any other datagram either
  removes \<open>g\<close> (an upstream failure) or leaves \<open>g\<close> with \<open>last_addr = a\<close> and
  \<open>last_rcvd = ts\<close> in the connection.
\<close>

theorem listening_socket_data:
  assumes "reachable s" and "length a = addr_len"
    and "\<not> is_srtla_reg1 buf" and "\<not> is_srtla_reg2 buf"
  shows "((\<forall>g \<in> set (conn_groups s). a \<notin> addr ` set (conns g)) \<longrightarrow>
            handle_srtla_data e ts (Some (buf, a)) s = Some (s, [])) \<and>
         (g \<in> set (conn_groups s) \<and> c \<in> set (conns g) \<and> addr c = a \<longrightarrow>
            (is_srtla_keepalive buf \<or> int (length buf) < SRT_MIN_LEN \<longrightarrow>
               (\<exists>evs. handle_srtla_data e ts (Some (buf, a)) s =
                  Some (put_group (g\<lparr>conns := put_conn (c\<lparr>last_rcvd := ts\<rparr>) (conns g)\<rparr>) s, evs))) \<and>
            (\<not> is_srtla_keepalive buf \<and> SRT_MIN_LEN \<le> int (length buf) \<longrightarrow>
               (\<exists>s' evs. handle_srtla_data e ts (Some (buf, a)) s = Some (s', evs) \<and>
                  (s' = remove_group (Some g) s \<or>
                   (\<exists>g' c'. s' = put_group g' s \<and> gptr g' = gptr g \<and> last_addr g' = a \<and>
                      conns g' = put_conn c' (conns g) \<and> cptr c' = cptr c \<and>
                      last_rcvd c' = ts)))))"
proof (intro conjI impI)
  from assms(1) have ok: "registry_ok (conn_groups s)" by (rule reachable_registry_ok)
  then have gok: "\<forall>g \<in> set (conn_groups s). group_ok g" by (simp add: registry_ok_def)
  {
    assume "\<forall>g \<in> set (conn_groups s). a \<notin> addr ` set (conns g)"
    from non_member_dropped[OF gok assms(2,3,4) this]
    show "handle_srtla_data e ts (Some (buf, a)) s = Some (s, [])" .
  }
  {
    assume m: "g \<in> set (conn_groups s) \<and> c \<in> set (conns g) \<and> addr c = a"
    then have f: "group_find_by_addr (conn_groups s) a = (Some g, Some c)"
      using find_by_addr_member[OF ok, of g c] by auto
    {
      assume "is_srtla_keepalive buf \<or> int (length buf) < SRT_MIN_LEN"
      from member_not_forwarded[OF f assms(3,4) this]
      show "\<exists>evs. handle_srtla_data e ts (Some (buf, a)) s =
          Some (put_group (g\<lparr>conns := put_conn (c\<lparr>last_rcvd := ts\<rparr>) (conns g)\<rparr>) s, evs)"
        by blast
    }
    {
      assume fw: "\<not> is_srtla_keepalive buf \<and> SRT_MIN_LEN \<le> int (length buf)"
      then have k: "\<not> is_srtla_keepalive buf" and l: "SRT_MIN_LEN \<le> int (length buf)"
        by simp_all
      let ?c' = "fst (if 0 \<le> get_srt_sn buf
          then register_packet e (c\<lparr>last_rcvd := ts\<rparr>) (get_srt_sn buf)
          else (c\<lparr>last_rcvd := ts\<rparr>, []))"
      let ?g3 = "g\<lparr>conns := put_conn ?c' (conns g), last_addr := a\<rparr>"
      let ?g4 = "if srt_sock g < 0 then ?g3\<lparr>srt_sock := socket_ret e\<rparr> else ?g3"
      let ?P = "\<lambda>s'. s' = remove_group (Some g) s \<or>
           (\<exists>g' c'. s' = put_group g' s \<and> gptr g' = gptr g \<and> last_addr g' = a \<and>
              conns g' = put_conn c' (conns g) \<and> cptr c' = cptr c \<and> last_rcvd c' = ts)"
      show "\<exists>s' evs. handle_srtla_data e ts (Some (buf, a)) s = Some (s', evs) \<and> ?P s'"
      proof (cases "upstream_fails e g buf")
        case True
        from member_forward_fail[OF f assms(3,4) k l True] show ?thesis by blast
      next
        case False
        have c': "cptr ?c' = cptr c" "last_rcvd ?c' = ts"
          by (simp_all add: register_packet_keeps)
        have "gptr ?g4 = gptr g \<and> last_addr ?g4 = a \<and> conns ?g4 = put_conn ?c' (conns g)"
          by simp
        with c' have "?P (put_group ?g4 s)" by blast
        with member_forward_ok[OF f assms(3,4) k l False, of ts] show ?thesis
          unfolding Let_def by blast
      qed
    }
  }
qed

theorem listening_socket_data_witness:
  "reachable registered_state \<and> length (peer 1) = addr_len \<and>
   \<not> is_srtla_reg1 (srt_data_pkt 5) \<and> \<not> is_srtla_reg2 (srt_data_pkt 5) \<and>
   map last_addr (conn_groups registered_state) = [peer 1] \<and>
   handle_srtla_data env_ok 200 (Some (srt_data_pkt 5, peer 1)) registered_state
     = Some (registered_state, []) \<and>
   reachable example_state \<and> length (peer 2) = addr_len \<and>
   \<not> is_srtla_reg1 keepalive_pkt \<and> \<not> is_srtla_reg2 keepalive_pkt \<and>
   is_srtla_keepalive keepalive_pkt \<and>
   map_option (conn_groups \<circ> fst)
     (handle_srtla_data env_ok 200 (Some (keepalive_pkt, peer 2)) example_state)
     = Some [example_group\<lparr>conns := [(example_conn 11 1)\<lparr>last_rcvd := 105\<rparr>,
                                        (example_conn 12 2)\<lparr>last_rcvd := 200\<rparr>]\<rparr>] \<and>
   \<not> is_srtla_keepalive (srt_data_pkt 5) \<and> SRT_MIN_LEN \<le> int (length (srt_data_pkt 5)) \<and>
   map_option (map last_addr \<circ> conn_groups \<circ> fst)
     (handle_srtla_data env_ok 200 (Some (srt_data_pkt 5, peer 2)) example_state)
     = Some [peer 2]"
proof -
  have l1: "length (peer 1) = addr_len" and l2: "length (peer 2) = addr_len"
    by (simp_all add: peer_def addr_len_def)
  have d: "\<not> is_srtla_reg1 (srt_data_pkt 5)" "\<not> is_srtla_reg2 (srt_data_pkt 5)"
    "\<not> is_srtla_keepalive (srt_data_pkt 5)" "SRT_MIN_LEN \<le> int (length (srt_data_pkt 5))"
    by (simp_all add: srt_data_pkt_def codec_defs const_defs)
  have k: "\<not> is_srtla_reg1 keepalive_pkt" "\<not> is_srtla_reg2 keepalive_pkt"
    "is_srtla_keepalive keepalive_pkt"
    by (simp_all add: keepalive_pkt_def codec_defs const_defs)
  have la: "map last_addr (conn_groups registered_state) = [peer 1]"
    by (simp add: registered_state_def registered_group_def)
  have nm: "\<forall>g \<in> set (conn_groups registered_state). peer 1 \<notin> addr ` set (conns g)"
    by (simp add: registered_state_def registered_group_def)
  from listening_socket_data[where e = env_ok and ts = 200, OF reachable_registered l1 d(1,2)] nm
  have 1: "handle_srtla_data env_ok 200 (Some (srt_data_pkt 5, peer 1)) registered_state
     = Some (registered_state, [])" by blast
  have m: "example_group \<in> set (conn_groups example_state) \<and>
     example_conn 12 2 \<in> set (conns example_group) \<and> addr (example_conn 12 2) = peer 2"
    by (simp add: example_state_def example_group_def example_conn_def)
  from listening_socket_data[where e = env_ok and ts = 200 and g = example_group
      and c = "example_conn 12 2", OF reachable_example l2 k(1,2)] m k(3)
  obtain evs where "handle_srtla_data env_ok 200 (Some (keepalive_pkt, peer 2)) example_state =
      Some (put_group (example_group\<lparr>conns :=
        put_conn ((example_conn 12 2)\<lparr>last_rcvd := 200\<rparr>) (conns example_group)\<rparr>)
        example_state, evs)" by blast
  then have 2: "map_option (conn_groups \<circ> fst)
     (handle_srtla_data env_ok 200 (Some (keepalive_pkt, peer 2)) example_state)
     = Some [example_group\<lparr>conns := [(example_conn 11 1)\<lparr>last_rcvd := 105\<rparr>,
                                        (example_conn 12 2)\<lparr>last_rcvd := 200\<rparr>]\<rparr>]"
    by (simp add: put_conn_def example_state_def example_group_def example_conn_def)
  from listening_socket_data[where e = env_ok and ts = 200 and g = example_group
      and c = "example_conn 12 2", OF reachable_example l2 d(1,2)] m d(3,4)
  obtain s' evs' where
    h: "handle_srtla_data env_ok 200 (Some (srt_data_pkt 5, peer 2)) example_state = Some (s', evs')"
    and "s' = remove_group (Some example_group) example_state \<or>
      (\<exists>g'. s' = put_group g' example_state \<and> gptr g' = gptr example_group \<and>
         last_addr g' = peer 2)" by blast
  then have "set (map last_addr (conn_groups s')) \<subseteq> {peer 2}"
    by (auto simp: remove_group_def example_state_def)
  moreover have "map gptr (conn_groups s') = [1]"
    using h
    by (auto simp: handle_srtla_data_def put_group_def put_conn_def srt_send_def
      register_packet_def const_time_cmp_def Let_def example_defs const_defs codec_defs
      srt_data_pkt_def replicate_numeral)
  ultimately have "map last_addr (conn_groups s') = [peer 2]"
    by (cases "conn_groups s'") auto
  with h have 3: "map_option (map last_addr \<circ> conn_groups \<circ> fst)
     (handle_srtla_data env_ok 200 (Some (srt_data_pkt 5, peer 2)) example_state)
     = Some [peer 2]" by simp
  from reachable_registered reachable_example l1 l2 d k la 1 2 3 show ?thesis by simp
qed

section \<open>REG1\<close>

text \<open>
  C2, as stated, fails: below the cap and from an unknown address the group is built and
  REG2 is sent, but when that \<^verbatim>\<open>sendto\<close> does not return the length of the packet the
  group is not inserted.
\<close>

theorem register_group_insert_counterexample:
  "is_srtla_reg1 (reg1_pkt 9) \<and> length (conn_groups example_state) < MAX_GROUPS \<and>
   group_find_by_addr (conn_groups example_state) (peer 3) = (None, None) \<and>
   register_group env_fail (peer 3) (reg1_pkt 9) 200 example_state =
     Some (- 1, example_state,
       [SendTo (peer 3) (htobe16 SRTLA_TYPE_REG2 @ replicate 16 9 @ replicate 16 0x5a),
        LogError ''Group registration failed: Send error''])"
  by (simp add: register_group_def new_srtla_conn_group_def get_random_bytes_def
        const_time_cmp_def Let_def example_defs const_defs codec_defs replicate_numeral)

text \<open>
  C2, amended. For a REG1 datagram from \<open>a\<close>: at the cap, or when \<open>a\<close> resolves to a
  group, the only datagram sent is REG_ERR to \<open>a\<close> and the state is unchanged. Otherwise,
  when \<^verbatim>\<open>/dev/urandom\<close> delivers its 16 bytes, the only datagram sent is REG2 to \<open>a\<close>
  with the 32-byte identifier made of the 16 bytes of the packet and the 16 random bytes;
  when its \<^verbatim>\<open>sendto\<close> returns the full length, the registry gains at its end a group
  with that identifier, \<open>last_addr = a\<close>, \<open>created_at = ts\<close>, no connection and no
  upstream socket; when it does not, the state is unchanged.
\<close>

theorem register_group_reply:
  assumes "is_srtla_reg1 in_buf"
  shows "(MAX_GROUPS \<le> length (conn_groups s) \<or>
            fst (group_find_by_addr (conn_groups s) a) \<noteq> None \<longrightarrow>
          (\<exists>evs. register_group e a in_buf ts s = Some (- 1, s, evs) \<and>
                 sends evs = [(a, htobe16 SRTLA_TYPE_REG_ERR)])) \<and>
         (length (conn_groups s) < MAX_GROUPS \<and>
            fst (group_find_by_addr (conn_groups s) a) = None \<and>
            SRTLA_ID_LEN div 2 \<le> length (urandom e) \<longrightarrow>
          (let id = drop 2 in_buf @ take (SRTLA_ID_LEN div 2) (urandom e)
           in length (drop 2 in_buf) = SRTLA_ID_LEN div 2 \<and> length id = SRTLA_ID_LEN \<and>
              (\<exists>r s' evs. register_group e a in_buf ts s = Some (r, s', evs) \<and>
                 sends evs = [(a, htobe16 SRTLA_TYPE_REG2 @ id)] \<and>
                 (if sendto_ret e a (htobe16 SRTLA_TYPE_REG2 @ id) = int SRTLA_TYPE_REG2_LEN
                  then r = 0 \<and>
                       s' = s\<lparr>conn_groups := conn_groups s @
                              [\<lparr>gptr = make_shared_ret e, gid = id, conns = [],
                                created_at = ts, srt_sock = - 1, last_addr = a\<rparr>]\<rparr>
                  else r = - 1 \<and> s' = s))))"
proof (intro conjI impI)
  assume "MAX_GROUPS \<le> length (conn_groups s) \<or>
            fst (group_find_by_addr (conn_groups s) a) \<noteq> None"
  then show "\<exists>evs. register_group e a in_buf ts s = Some (- 1, s, evs) \<and>
                 sends evs = [(a, htobe16 SRTLA_TYPE_REG_ERR)]"
    by (cases "group_find_by_addr (conn_groups s) a")
       (auto simp: register_group_def srtla_send_reg_err_def)
next
  assume a: "length (conn_groups s) < MAX_GROUPS \<and>
            fst (group_find_by_addr (conn_groups s) a) = None \<and>
            SRTLA_ID_LEN div 2 \<le> length (urandom e)"
  define idv where "idv = drop 2 in_buf @ take (SRTLA_ID_LEN div 2) (urandom e)"
  from assms have l: "length in_buf = 18"
    by (simp add: is_srtla_reg1_def SRTLA_TYPE_REG1_LEN_def SRTLA_ID_LEN_def)
  then have lc: "length (drop 2 in_buf) = SRTLA_ID_LEN div 2" by (simp add: SRTLA_ID_LEN_def)
  then have t: "take (SRTLA_ID_LEN div 2) (drop 2 in_buf) = drop 2 in_buf" by simp
  from a lc have li: "length idv = SRTLA_ID_LEN" by (simp add: idv_def SRTLA_ID_LEN_def)
  have ti: "take SRTLA_ID_LEN idv = idv"
    by (rule take_all) (simp only: li order_refl)
  from a obtain rc where f: "group_find_by_addr (conn_groups s) a = (None, rc)"
    by (cases "group_find_by_addr (conn_groups s) a") auto
  from a have rb: "get_random_bytes e (SRTLA_ID_LEN div 2)
      = Some (take (SRTLA_ID_LEN div 2) (urandom e))"
    by (simp add: get_random_bytes_def)
  have ng: "new_srtla_conn_group e (drop 2 in_buf) ts =
      Some \<lparr>gptr = make_shared_ret e, gid = idv, conns = [], created_at = ts, srt_sock = - 1,
            last_addr = replicate addr_len 0\<rparr>"
    by (simp only: new_srtla_conn_group_def rb t idv_def option.case)
  have rg: "register_group e a in_buf ts s =
      (if sendto_ret e a (htobe16 SRTLA_TYPE_REG2 @ idv) \<noteq> int SRTLA_TYPE_REG2_LEN
       then Some (- 1, s, [SendTo a (htobe16 SRTLA_TYPE_REG2 @ idv),
              LogError ''Group registration failed: Send error''])
       else Some (0, s\<lparr>conn_groups := conn_groups s @
              [\<lparr>gptr = make_shared_ret e, gid = idv, conns = [], created_at = ts,
                srt_sock = - 1, last_addr = a\<rparr>]\<rparr>,
              [SendTo a (htobe16 SRTLA_TYPE_REG2 @ idv), LogInfo ''Group registered'']))"
    using a f by (simp add: register_group_def ng ti Let_def)
  show "let id = drop 2 in_buf @ take (SRTLA_ID_LEN div 2) (urandom e)
           in length (drop 2 in_buf) = SRTLA_ID_LEN div 2 \<and> length id = SRTLA_ID_LEN \<and>
              (\<exists>r s' evs. register_group e a in_buf ts s = Some (r, s', evs) \<and>
                 sends evs = [(a, htobe16 SRTLA_TYPE_REG2 @ id)] \<and>
                 (if sendto_ret e a (htobe16 SRTLA_TYPE_REG2 @ id) = int SRTLA_TYPE_REG2_LEN
                  then r = 0 \<and>
                       s' = s\<lparr>conn_groups := conn_groups s @
                              [\<lparr>gptr = make_shared_ret e, gid = id, conns = [],
                                created_at = ts, srt_sock = - 1, last_addr = a\<rparr>]\<rparr>
                  else r = - 1 \<and> s' = s))"
    unfolding Let_def idv_def[symmetric] using lc li by (simp add: rg)
qed

lemma reply_simp [simp]: "reply (r, s, evs) = (r, s, sends evs)"
  by (simp add: reply_def)

lemmas example_defs2 = example_defs second_group_def two_group_state_def

theorem register_group_reply_witness:
  "is_srtla_reg1 (reg1_pkt 9) \<and>
   fst (group_find_by_addr (conn_groups example_state) (peer 1)) \<noteq> None \<and>
   map_option reply (register_group env_ok (peer 1) (reg1_pkt 9) 200 example_state)
     = Some (- 1, example_state, [(peer 1, htobe16 SRTLA_TYPE_REG_ERR)]) \<and>
   length (conn_groups example_state) < MAX_GROUPS \<and>
   fst (group_find_by_addr (conn_groups example_state) (peer 3)) = None \<and>
   SRTLA_ID_LEN div 2 \<le> length (urandom env_ok) \<and>
   map_option reply (register_group env_ok (peer 3) (reg1_pkt 9) 200 example_state)
     = Some (0, two_group_state,
         [(peer 3, htobe16 SRTLA_TYPE_REG2 @ replicate 16 9 @ replicate 16 0x5a)])"
proof -
  have p: "is_srtla_reg1 (reg1_pkt 9)"
    by (simp add: reg1_pkt_def codec_defs const_defs)
  have f1: "fst (group_find_by_addr (conn_groups example_state) (peer 1)) \<noteq> None"
    by (simp add: const_time_cmp_def example_defs const_defs)
  have f3: "length (conn_groups example_state) < MAX_GROUPS \<and>
     fst (group_find_by_addr (conn_groups example_state) (peer 3)) = None \<and>
     SRTLA_ID_LEN div 2 \<le> length (urandom env_ok)"
    by (simp add: const_time_cmp_def example_defs const_defs)
  have sr: "sendto_ret env_ok (peer 3)
      (htobe16 SRTLA_TYPE_REG2 @ drop 2 (reg1_pkt 9) @ take (SRTLA_ID_LEN div 2) (urandom env_ok))
      = int SRTLA_TYPE_REG2_LEN"
    by (simp add: example_defs const_defs htobe16_def)
  have idv: "drop 2 (reg1_pkt 9) @ take (SRTLA_ID_LEN div 2) (urandom env_ok)
      = replicate 16 9 @ replicate 16 0x5a"
    by (simp add: example_defs const_defs htobe16_def)
  have st: "example_state\<lparr>conn_groups := conn_groups example_state @
      [\<lparr>gptr = make_shared_ret env_ok, gid = replicate 16 9 @ replicate 16 0x5a, conns = [],
        created_at = 200, srt_sock = - 1, last_addr = peer 3\<rparr>]\<rparr> = two_group_state"
    by (simp add: example_state_def two_group_state_def second_group_def env_ok_def)
  note th1 = register_group_reply[OF p, where s = example_state and a = "peer 1"
      and e = env_ok and ts = 200]
  note th3 = register_group_reply[OF p, where s = example_state and a = "peer 3"
      and e = env_ok and ts = 200]
  from th1 f1 have 1: "map_option reply (register_group env_ok (peer 1) (reg1_pkt 9) 200
      example_state) = Some (- 1, example_state, [(peer 1, htobe16 SRTLA_TYPE_REG_ERR)])"
    by auto
  from th3 f3 have  "\<exists>r s' evs.
      register_group env_ok (peer 3) (reg1_pkt 9) 200 example_state = Some (r, s', evs) \<and>
      sends evs = [(peer 3, htobe16 SRTLA_TYPE_REG2 @ replicate 16 9 @ replicate 16 0x5a)] \<and>
      r = 0 \<and> s' = two_group_state"
    unfolding Let_def idv sr[unfolded idv] st by simp
  then have 3: "map_option reply (register_group env_ok (peer 3) (reg1_pkt 9) 200 example_state)
     = Some (0, two_group_state,
         [(peer 3, htobe16 SRTLA_TYPE_REG2 @ replicate 16 9 @ replicate 16 0x5a)])"
    by auto
  from p f1 f3 1 3 show ?thesis by simp
qed

lemma reachable_two_groups: "reachable two_group_state"
proof -
  have "\<exists>evs. handle_srtla_data env_ok 200 (Some (reg1_pkt 9, peer 3)) example_state
      = Some (two_group_state, evs)"
    by (simp add: handle_srtla_data_def register_group_def new_srtla_conn_group_def
      get_random_bytes_def const_time_cmp_def Let_def example_defs2 const_defs codec_defs
      replicate_numeral)
  then obtain evs where
    h: "handle_srtla_data env_ok 200 (Some (reg1_pkt 9, peer 3)) example_state
      = Some (two_group_state, evs)" ..
  show ?thesis
    by (rule reach_srtla[OF reachable_example _ _ h])
       (simp_all add: dgram_ok_def live_ptrs_def example_defs const_defs htobe16_def)
qed

section \<open>REG2\<close>

lemma conn_reg_mismatch:
  assumes ok: "registry_ok (conn_groups s)" and len: "length a = addr_len"
    and g: "g \<in> set (conn_groups s)"
    and f: "group_find_by_addr (conn_groups s) a = (tmp, conn)"
  shows "(tmp \<noteq> None \<and> map_option gptr tmp \<noteq> Some (gptr g)) = (\<exists>g'. tmp = Some g' \<and> g' \<noteq> g)"
proof (cases tmp)
  case None
  then show ?thesis by simp
next
  case (Some g')
  from ok have gok: "\<forall>g \<in> set (conn_groups s). group_ok g" and d: "distinct (map gptr (conn_groups s))"
    by (simp_all add: registry_ok_def)
  from find_by_addr_Some[OF gok len f[unfolded Some]] have "g' \<in> set (conn_groups s)" by simp
  with d g have "gptr g' = gptr g \<longleftrightarrow> g' = g" by (auto dest: gptr_inj)
  with Some show ?thesis by simp
qed

lemma conn_reg_member:
  assumes ok: "registry_ok (conn_groups s)" and len: "length a = addr_len"
    and g: "g \<in> set (conn_groups s)"
    and f: "group_find_by_addr (conn_groups s) a = (tmp, conn)"
    and same: "tmp = None \<or> tmp = Some g"
  shows "(conn = None) = (a \<notin> addr ` set (conns g))"
proof -
  from ok have gok: "\<forall>g \<in> set (conn_groups s). group_ok g" by (simp add: registry_ok_def)
  show ?thesis
  proof (cases tmp)
    case None
    with f find_by_addr_None_snd[of "conn_groups s" a] have "conn = None" by simp
    moreover from None f find_by_addr_None[OF gok len] g have "a \<notin> addrs_of g" by auto
    ultimately show ?thesis by (simp add: addrs_of_def)
  next
    case (Some g')
    with same have t: "tmp = Some g" by simp
    from find_by_addr_Some[OF gok len f[unfolded t]] show ?thesis
      by (cases conn) auto
  qed
qed

text \<open>
  C3, as stated, fails: for a known identifier, an unknown address and a group below its
  cap REG3 is sent, but when that \<^verbatim>\<open>sendto\<close> does not return the two bytes of the header
  no connection is created and \<open>last_addr\<close> is not set.
\<close>

theorem conn_reg_reply_counterexample:
  "group_find_by_id (conn_groups example_state) (drop 2 (reg2_pkt (example_id 7)))
     = Some example_group \<and>
   group_find_by_addr (conn_groups example_state) (peer 3) = (None, None) \<and>
   length (conns example_group) < MAX_CONNS_PER_GROUP \<and>
   conn_reg env_fail (peer 3) (reg2_pkt (example_id 7)) 200 example_state =
     (- 1, example_state, [SendTo (peer 3) (htobe16 SRTLA_TYPE_REG3),
        LogError ''Connection registration failed: Socket send error''])"
  by (simp add: conn_reg_def const_time_cmp_def Let_def example_defs const_defs codec_defs
        replicate_numeral)

text \<open>
  C3, amended. In a reachable state, for a REG2 datagram from \<open>a\<close>: when no group has
  the identifier of the packet, the only datagram sent is REG_NGP and the state is
  unchanged. When group \<open>g\<close> has it: if \<open>a\<close> resolves to another group, or \<open>a\<close> is not
  a member of \<open>g\<close> and \<open>g\<close> has \<open>MAX_CONNS_PER_GROUP\<close> connections or more, the only
  datagram sent is REG_ERR and the state is unchanged. Otherwise the only datagram sent
  is REG3; when its \<^verbatim>\<open>sendto\<close> returns 2, \<open>g\<close> gets \<open>last_addr = a\<close> and, unless \<open>a\<close>
  is a member already, a new last connection with address \<open>a\<close>, \<open>recv_idx = 0\<close> and
  \<open>last_rcvd = ts\<close>; when it does not, the state is unchanged.
\<close>

theorem conn_reg_reply:
  assumes "reachable s" and "length a = addr_len"
  shows "(group_find_by_id (conn_groups s) (drop 2 in_buf) = None \<longrightarrow>
            (\<exists>evs. conn_reg e a in_buf ts s = (- 1, s, evs) \<and>
                   sends evs = [(a, htobe16 SRTLA_TYPE_REG_NGP)])) \<and>
         (group_find_by_id (conn_groups s) (drop 2 in_buf) = Some g \<longrightarrow>
            (let other = (\<exists>g'. fst (group_find_by_addr (conn_groups s) a) = Some g' \<and> g' \<noteq> g);
                 member = (a \<in> addr ` set (conns g));
                 full = (MAX_CONNS_PER_GROUP \<le> length (conns g))
             in (other \<or> \<not> member \<and> full \<longrightarrow>
                   (\<exists>evs. conn_reg e a in_buf ts s = (- 1, s, evs) \<and>
                          sends evs = [(a, htobe16 SRTLA_TYPE_REG_ERR)])) \<and>
                (\<not> other \<and> (member \<or> \<not> full) \<longrightarrow>
                   (\<exists>r s' evs. conn_reg e a in_buf ts s = (r, s', evs) \<and>
                      sends evs = [(a, htobe16 SRTLA_TYPE_REG3)] \<and>
                      (if sendto_ret e a (htobe16 SRTLA_TYPE_REG3) = 2
                       then r = 0 \<and>
                            s' = put_group (g\<lparr>conns :=
                                   (if member then conns g
                                    else conns g @
                                      [\<lparr>cptr = make_shared_ret e, addr = a, last_rcvd = ts,
                                        recv_idx = 0,
                                        recv_log = replicate RECV_ACK_INT (replicate 4 0)\<rparr>]),
                                   last_addr := a\<rparr>) s
                       else r = - 1 \<and> s' = s)))))"
proof (intro conjI impI)
  assume "group_find_by_id (conn_groups s) (drop 2 in_buf) = None"
  then show "\<exists>evs. conn_reg e a in_buf ts s = (- 1, s, evs) \<and>
                   sends evs = [(a, htobe16 SRTLA_TYPE_REG_NGP)]"
    by (simp add: conn_reg_def)
next
  assume fid: "group_find_by_id (conn_groups s) (drop 2 in_buf) = Some g"
  from assms(1) have ok: "registry_ok (conn_groups s)" by (rule reachable_registry_ok)
  from fid have g: "g \<in> set (conn_groups s)" by (rule find_by_id_mem)
  obtain tmp conn where f: "group_find_by_addr (conn_groups s) a = (tmp, conn)"
    by (cases "group_find_by_addr (conn_groups s) a")
  note mis = conn_reg_mismatch[OF ok assms(2) g f]
  define other where "other = (\<exists>g'. tmp = Some g' \<and> g' \<noteq> g)"
  define member where "member = (a \<in> addr ` set (conns g))"
  define full where "full = (MAX_CONNS_PER_GROUP \<le> length (conns g))"
  have mem: "(conn = None) = (\<not> member)" if "\<not> other"
  proof -
    from that have "tmp = None \<or> tmp = Some g" by (cases tmp) (auto simp: other_def)
    from conn_reg_member[OF ok assms(2) g f this] show ?thesis by (simp add: member_def)
  qed
  have err: "\<exists>evs. conn_reg e a in_buf ts s = (- 1, s, evs) \<and>
                          sends evs = [(a, htobe16 SRTLA_TYPE_REG_ERR)]"
    if "other \<or> \<not> member \<and> full"
  proof (cases other)
    case True
    with mis have "tmp \<noteq> None \<and> map_option gptr tmp \<noteq> Some (gptr g)" by (simp add: other_def)
    then show ?thesis
      by (simp add: conn_reg_def fid f srtla_send_reg_err_def)
  next
    case False
    with that mem have "conn = None" "full" by auto
    moreover from False have "tmp = None \<or> tmp = Some g" by (cases tmp) (auto simp: other_def)
    ultimately show ?thesis
      by (auto simp: conn_reg_def fid f srtla_send_reg_err_def full_def)
  qed
  have succ: "\<exists>r s' evs. conn_reg e a in_buf ts s = (r, s', evs) \<and>
                      sends evs = [(a, htobe16 SRTLA_TYPE_REG3)] \<and>
                      (if sendto_ret e a (htobe16 SRTLA_TYPE_REG3) = 2
                       then r = 0 \<and>
                            s' = put_group (g\<lparr>conns :=
                                   (if member then conns g
                                    else conns g @
                                      [\<lparr>cptr = make_shared_ret e, addr = a, last_rcvd = ts,
                                        recv_idx = 0,
                                        recv_log = replicate RECV_ACK_INT (replicate 4 0)\<rparr>]),
                                   last_addr := a\<rparr>) s
                       else r = - 1 \<and> s' = s)"
    if "\<not> other \<and> (member \<or> \<not> full)"
  proof -
    from that have same: "tmp = None \<or> tmp = Some g" by (cases tmp) (auto simp: other_def)
    from that mem have c: "(conn = None) = (\<not> member)" by simp
    show ?thesis
    proof (cases member)
      case True
      with c obtain c0 where "conn = Some c0" by auto
      with same True show ?thesis
        by (auto simp: conn_reg_def fid f Let_def)
    next
      case False
      with c that have "conn = None" "\<not> full" by auto
      with same False show ?thesis
        by (auto simp: conn_reg_def fid f Let_def full_def new_srtla_conn_def)
    qed
  qed
  from err succ show "let other = (\<exists>g'. fst (group_find_by_addr (conn_groups s) a) = Some g' \<and> g' \<noteq> g);
                 member = (a \<in> addr ` set (conns g));
                 full = (MAX_CONNS_PER_GROUP \<le> length (conns g))
             in (other \<or> \<not> member \<and> full \<longrightarrow>
                   (\<exists>evs. conn_reg e a in_buf ts s = (- 1, s, evs) \<and>
                          sends evs = [(a, htobe16 SRTLA_TYPE_REG_ERR)])) \<and>
                (\<not> other \<and> (member \<or> \<not> full) \<longrightarrow>
                   (\<exists>r s' evs. conn_reg e a in_buf ts s = (r, s', evs) \<and>
                      sends evs = [(a, htobe16 SRTLA_TYPE_REG3)] \<and>
                      (if sendto_ret e a (htobe16 SRTLA_TYPE_REG3) = 2
                       then r = 0 \<and>
                            s' = put_group (g\<lparr>conns :=
                                   (if member then conns g
                                    else conns g @
                                      [\<lparr>cptr = make_shared_ret e, addr = a, last_rcvd = ts,
                                        recv_idx = 0,
                                        recv_log = replicate RECV_ACK_INT (replicate 4 0)\<rparr>]),
                                   last_addr := a\<rparr>) s
                       else r = - 1 \<and> s' = s)))"
    unfolding Let_def other_def member_def full_def f by simp
qed

theorem conn_reg_reply_witness:
  "reachable example_state \<and> length (peer 3) = addr_len \<and>
   group_find_by_id (conn_groups example_state) (drop 2 (reg2_pkt (example_id 9))) = None \<and>
   reply (conn_reg env_ok (peer 3) (reg2_pkt (example_id 9)) 200 example_state)
     = (- 1, example_state, [(peer 3, htobe16 SRTLA_TYPE_REG_NGP)]) \<and>
   reachable two_group_state \<and>
   group_find_by_id (conn_groups two_group_state) (drop 2 (reg2_pkt (example_id 7)))
     = Some example_group \<and>
   fst (group_find_by_addr (conn_groups two_group_state) (peer 3)) = Some second_group \<and>
   second_group \<noteq> example_group \<and>
   reply (conn_reg env_ok (peer 3) (reg2_pkt (example_id 7)) 200 two_group_state)
     = (- 1, two_group_state, [(peer 3, htobe16 SRTLA_TYPE_REG_ERR)]) \<and>
   group_find_by_id (conn_groups example_state) (drop 2 (reg2_pkt (example_id 7)))
     = Some example_group \<and>
   fst (group_find_by_addr (conn_groups example_state) (peer 3)) = None \<and>
   peer 3 \<notin> addr ` set (conns example_group) \<and>
   length (conns example_group) < MAX_CONNS_PER_GROUP \<and>
   sendto_ret env_ok (peer 3) (htobe16 SRTLA_TYPE_REG3) = 2 \<and>
   reply (conn_reg env_ok (peer 3) (reg2_pkt (example_id 7)) 200 example_state)
     = (0, example_state\<lparr>conn_groups :=
             [example_group\<lparr>conns := conns example_group @
                [(example_conn 20 3)\<lparr>last_rcvd := 200\<rparr>], last_addr := peer 3\<rparr>]\<rparr>,
        [(peer 3, htobe16 SRTLA_TYPE_REG3)])"
proof -
  have l: "length (peer 3) = addr_len" by (simp add: peer_def addr_len_def)
  have i9: "group_find_by_id (conn_groups example_state) (drop 2 (reg2_pkt (example_id 9))) = None"
    by (simp add: const_time_cmp_def example_defs const_defs htobe16_def replicate_numeral)
  have i7: "group_find_by_id (conn_groups example_state) (drop 2 (reg2_pkt (example_id 7)))
      = Some example_group"
    by (simp add: const_time_cmp_def example_defs const_defs htobe16_def replicate_numeral)
  have j7: "group_find_by_id (conn_groups two_group_state) (drop 2 (reg2_pkt (example_id 7)))
      = Some example_group"
    by (simp add: const_time_cmp_def example_defs2 const_defs htobe16_def replicate_numeral)
  have o: "fst (group_find_by_addr (conn_groups two_group_state) (peer 3)) = Some second_group"
    by (simp add: const_time_cmp_def example_defs2 const_defs)
  have ne: "second_group \<noteq> example_group"
    by (simp add: example_defs2)
  have f3: "fst (group_find_by_addr (conn_groups example_state) (peer 3)) = None"
    by (simp add: const_time_cmp_def example_defs const_defs)
  have nm: "peer 3 \<notin> addr ` set (conns example_group)"
    by (simp add: example_defs)
  have nf: "length (conns example_group) < MAX_CONNS_PER_GROUP"
    by (simp add: example_defs const_defs)
  have sr: "sendto_ret env_ok (peer 3) (htobe16 SRTLA_TYPE_REG3) = 2"
    by (simp add: env_ok_def htobe16_def)
  note th9 = conn_reg_reply[OF reachable_example l, where in_buf = "reg2_pkt (example_id 9)"
      and e = env_ok and ts = 200]
  from th9 i9 have 1: "reply (conn_reg env_ok (peer 3) (reg2_pkt (example_id 9)) 200 example_state)
     = (- 1, example_state, [(peer 3, htobe16 SRTLA_TYPE_REG_NGP)])"
    by auto
  note th2 = conn_reg_reply[OF reachable_two_groups l, where in_buf = "reg2_pkt (example_id 7)"
      and e = env_ok and ts = 200 and g = example_group]
  from th2 j7 o ne have 2: "reply (conn_reg env_ok (peer 3) (reg2_pkt (example_id 7)) 200
      two_group_state) = (- 1, two_group_state, [(peer 3, htobe16 SRTLA_TYPE_REG_ERR)])"
    unfolding Let_def by auto
  note th7 = conn_reg_reply[OF reachable_example l, where in_buf = "reg2_pkt (example_id 7)"
      and e = env_ok and ts = 200 and g = example_group]
  have st: "put_group (example_group\<lparr>conns := conns example_group @
       [\<lparr>cptr = make_shared_ret env_ok, addr = peer 3, last_rcvd = 200, recv_idx = 0,
         recv_log = replicate RECV_ACK_INT (replicate 4 0)\<rparr>], last_addr := peer 3\<rparr>)
       example_state
     = example_state\<lparr>conn_groups :=
             [example_group\<lparr>conns := conns example_group @
                [(example_conn 20 3)\<lparr>last_rcvd := 200\<rparr>], last_addr := peer 3\<rparr>]\<rparr>"
    by (simp add: put_group_def example_state_def example_group_def example_conn_def env_ok_def)
  from th7 i7 f3 nm nf sr have 3:
    "reply (conn_reg env_ok (peer 3) (reg2_pkt (example_id 7)) 200 example_state)
     = (0, example_state\<lparr>conn_groups :=
             [example_group\<lparr>conns := conns example_group @
                [(example_conn 20 3)\<lparr>last_rcvd := 200\<rparr>], last_addr := peer 3\<rparr>]\<rparr>,
        [(peer 3, htobe16 SRTLA_TYPE_REG3)])"
    unfolding Let_def st[symmetric] by auto
  from reachable_example reachable_two_groups l i9 i7 j7 o ne f3 nm nf sr 1 2 3
  show ?thesis by simp
qed

section \<open>The acknowledgement window\<close>

lemma get_srt_sn_bound: "get_srt_sn buf < 2 ^ 31"
  by (simp add: get_srt_sn_def)

lemma get_srt_sn_mod: "0 \<le> get_srt_sn buf \<Longrightarrow> get_srt_sn buf mod 2 ^ 32 = get_srt_sn buf"
  using get_srt_sn_bound[of buf] by simp

lemma data_type_small:
  assumes "0 \<le> get_srt_sn buf"
  shows "get_srt_type buf < 2 ^ 15"
proof -
  from assms have l: "4 \<le> length buf" and w: "first_word buf < 2 ^ 31"
    by (auto simp: get_srt_sn_def split: if_splits)
  have "unat (buf ! 0) * 2 ^ 24 \<le> first_word buf" by (simp add: first_word_def)
  with w have "unat (buf ! 0) * 2 ^ 24 < 128 * 2 ^ 24" by simp
  then have "unat (buf ! 0) < 128" by simp
  moreover have "unat (buf ! 1) < 256" using unsigned_less[of "buf ! 1", where ?'a = nat] by simp
  ultimately show ?thesis using l by (simp add: get_srt_type_def)
qed

lemma data_not_control:
  assumes "0 \<le> get_srt_sn buf"
  shows "\<not> is_srtla_reg1 buf" "\<not> is_srtla_reg2 buf" "\<not> is_srtla_keepalive buf"
  using data_type_small[OF assms]
  by (simp_all add: is_srtla_reg1_def is_srtla_reg2_def is_srtla_keepalive_def
        SRTLA_TYPE_REG1_def SRTLA_TYPE_REG2_def SRTLA_TYPE_KEEPALIVE_def)

lemma register_packet_lt:
  "recv_idx c + 1 < RECV_ACK_INT \<Longrightarrow> 0 \<le> sn \<Longrightarrow> sn < 2 ^ 31 \<Longrightarrow>
   register_packet e c sn =
     (c\<lparr>recv_log := (recv_log c)[recv_idx c := htobe32 (nat sn)], recv_idx := recv_idx c + 1\<rparr>, [])"
  by (simp add: register_packet_def Let_def)

lemma register_packet_eq:
  "recv_idx c + 1 = RECV_ACK_INT \<Longrightarrow> 0 \<le> sn \<Longrightarrow> sn < 2 ^ 31 \<Longrightarrow>
   fst (register_packet e c sn) =
     c\<lparr>recv_log := (recv_log c)[recv_idx c := htobe32 (nat sn)], recv_idx := 0\<rparr> \<and>
   sends (snd (register_packet e c sn)) =
     [(addr c, htobe32 (SRTLA_TYPE_ACK * 2 ^ 16) @
         concat ((recv_log c)[recv_idx c := htobe32 (nat sn)]))]"
  by (simp add: register_packet_def Let_def)

lemma put_group_mem:
  "g \<in> set (conn_groups s) \<Longrightarrow> gptr g' = gptr g \<Longrightarrow> g' \<in> set (conn_groups (put_group g' s))"
  by (force simp: put_group_def)

lemma put_conn_mem: "c \<in> set cs \<Longrightarrow> cptr c' = cptr c \<Longrightarrow> c' \<in> set (put_conn c' cs)"
  by (force simp: put_conn_def)

lemma take_Suc_update:
  "k < length xs \<Longrightarrow> take (Suc k) (xs[k := x]) = take k xs @ [x]"
  by (induction xs arbitrary: k) (auto split: nat.splits)

declare blocks.simps [simp del]

lemma blocks_short: "length xs < n \<Longrightarrow> blocks n xs = []"
  by (simp add: blocks.simps)

lemma blocks_append: "0 < n \<Longrightarrow> length xs = n \<Longrightarrow> blocks n (xs @ ys) = xs # blocks n ys"
  by (subst blocks.simps) simp

lemma blocks_length: "blk \<in> set (blocks n xs) \<Longrightarrow> length blk = n"
proof (induction n xs rule: blocks.induct)
  case (1 n xs)
  show ?case
  proof (cases "n = 0 \<or> length xs < n")
    case True
    with "1.prems" show ?thesis by (simp add: blocks.simps)
  next
    case False
    with "1.prems" have "blk = take n xs \<or> blk \<in> set (blocks n (drop n xs))"
      by (subst (asm) blocks.simps) simp
    with False "1.IH" show ?thesis by auto
  qed
qed

lemma member_kept:
  assumes ok: "registry_ok gs" and g: "g \<in> set gs" and c: "c \<in> set (conns g)"
    and sub: "\<forall>g1 \<in> set gs1. \<exists>g0 \<in> set gs. gptr g1 = gptr g0 \<and> set (conns g1) \<subseteq> set (conns g0)"
    and m: "\<exists>g1 \<in> set gs1. addr c \<in> addr ` set (conns g1)"
  shows "\<exists>g1 \<in> set gs1. gptr g1 = gptr g \<and> c \<in> set (conns g1)"
proof -
  from m obtain g1 c1 where g1: "g1 \<in> set gs1" and c1: "c1 \<in> set (conns g1)"
    and a: "addr c1 = addr c" by auto
  from sub g1 obtain g0 where g0: "g0 \<in> set gs" and p: "gptr g1 = gptr g0"
    and s: "set (conns g1) \<subseteq> set (conns g0)" by blast
  from s c1 have c1': "c1 \<in> set (conns g0)" by blast
  have e1: "group_find_by_addr gs (addr c) = (Some g0, Some c1)"
    using find_by_addr_member[OF ok g0 c1'] unfolding a .
  have "(Some g0, Some c1) = (Some g, Some c)"
    using find_by_addr_member[OF ok g c] unfolding e1 .
  then have "g0 = g" "c1 = c" by simp_all
  with g1 p c1 show ?thesis by auto
qed

lemma member_data_shape:
  assumes f: "group_find_by_addr (conn_groups s) a = (Some g, Some c)"
    and n1: "\<not> is_srtla_reg1 buf" and n2: "\<not> is_srtla_reg2 buf"
    and h: "handle_srtla_data e ts (Some (buf, a)) s = Some (s1, ev)"
  shows "(s1 = remove_group (Some g) s \<or>
          (\<exists>gX. s1 = put_group gX s \<and> gptr gX = gptr g \<and>
             conns gX = put_conn
               (if is_srtla_keepalive buf \<or> int (length buf) < SRT_MIN_LEN \<or> get_srt_sn buf < 0
                then c\<lparr>last_rcvd := ts\<rparr>
                else fst (register_packet e (c\<lparr>last_rcvd := ts\<rparr>) (get_srt_sn buf)))
               (conns g))) \<and>
         sends ev =
           (if is_srtla_keepalive buf then [(a, buf)]
            else if int (length buf) < SRT_MIN_LEN \<or> get_srt_sn buf < 0 then []
            else sends (snd (register_packet e (c\<lparr>last_rcvd := ts\<rparr>) (get_srt_sn buf))))"
proof -
  note r = member_data_result[OF f n1 n2, of e ts, unfolded h]
  show ?thesis
  proof (cases "is_srtla_keepalive buf \<or> int (length buf) < SRT_MIN_LEN")
    case True
    from member_not_forwarded[OF f n1 n2 True, of e ts] h
    have "s1 = put_group (g\<lparr>conns := put_conn (c\<lparr>last_rcvd := ts\<rparr>) (conns g)\<rparr>) s"
      and "ev = (if is_srtla_keepalive buf then
         SendTo a buf # (if sendto_ret e a buf \<noteq> int (length buf)
           then [LogError ''failed to send the srtla keepalive''] else [])
       else [])" by simp_all
    with True show ?thesis by auto
  next
    case False
    then have ka: "\<not> is_srtla_keepalive buf" and l: "SRT_MIN_LEN \<le> int (length buf)" by simp_all
    let ?reg = "if 0 \<le> get_srt_sn buf
                then register_packet e (c\<lparr>last_rcvd := ts\<rparr>) (get_srt_sn buf)
                else (c\<lparr>last_rcvd := ts\<rparr>, [])"
    show ?thesis
    proof (cases "upstream_fails e g buf")
      case True
      from member_forward_fail[OF f n1 n2 ka l True, of ts] h
      have 1: "s1 = remove_group (Some g) s" by auto
      from r ka l have "sends ev = sends (snd ?reg)"
        by (simp add: Let_def sends_append split: if_splits)
      with 1 ka l show ?thesis by auto
    next
      case nf: False
      let ?g3 = "g\<lparr>conns := put_conn (fst ?reg) (conns g), last_addr := a\<rparr>"
      let ?g4 = "if srt_sock g < 0 then ?g3\<lparr>srt_sock := socket_ret e\<rparr> else ?g3"
      from member_forward_ok[OF f n1 n2 ka l nf, of ts] h
      have 1: "s1 = put_group ?g4 s" and 2: "ev = snd ?reg @ [SendSrt (srt_sock ?g4) buf]"
        by (simp_all add: Let_def)
      have 3: "gptr ?g4 = gptr g" "conns ?g4 = put_conn (fst ?reg) (conns g)" by simp_all
      from 2 have 4: "sends ev = sends (snd ?reg)" by (simp add: sends_append)
      from 1 3 have "\<exists>gX. s1 = put_group gX s \<and> gptr gX = gptr g \<and>
          conns gX = put_conn (fst ?reg) (conns g)" by blast
      with 4 ka l show ?thesis by (auto simp: not_le)
    qed
  qed
qed

lemma register_group_sends:
  assumes "register_group e a in_buf ts s = Some (r, s1, ev)"
  shows "\<forall>(d, p) \<in> set (sends ev). d = a \<and> get_srt_type p \<noteq> SRTLA_TYPE_ACK"
  using assms
  by (auto simp: register_group_def srtla_send_reg_err_def Let_def htobe16_def get_srt_type_def
        SRTLA_TYPE_REG_ERR_def SRTLA_TYPE_REG2_def SRTLA_TYPE_ACK_def
        split: if_splits option.splits prod.splits)

lemma conn_reg_sends:
  assumes "conn_reg e a in_buf ts s = (r, s1, ev)"
  shows "\<forall>(d, p) \<in> set (sends ev). d = a \<and> get_srt_type p \<noteq> SRTLA_TYPE_ACK"
  using assms
  by (auto simp: conn_reg_def srtla_send_reg_err_def Let_def htobe16_def get_srt_type_def
        SRTLA_TYPE_REG_ERR_def SRTLA_TYPE_REG3_def SRTLA_TYPE_REG_NGP_def SRTLA_TYPE_ACK_def
        split: if_splits option.splits prod.splits)

lemma register_group_groups:
  assumes "register_group e a in_buf ts s = Some (r, s1, ev)"
  shows "s1 = s \<or> (\<exists>gn. conn_groups s1 = conn_groups s @ [gn])"
  using assms
  by (auto simp: register_group_def Let_def split: if_splits option.splits prod.splits)

lemma conn_reg_groups:
  assumes "conn_reg e a in_buf ts s = (r, s1, ev)"
  shows "s1 = s \<or> (\<exists>gi g2. gi \<in> set (conn_groups s) \<and> s1 = put_group g2 s \<and>
           gptr g2 = gptr gi \<and> set (conns gi) \<subseteq> set (conns g2))"
proof (cases "group_find_by_id (conn_groups s) (drop 2 in_buf)")
  case None
  with assms show ?thesis by (simp add: conn_reg_def)
next
  case (Some gi)
  from find_by_id_mem[OF Some] have gi: "gi \<in> set (conn_groups s)" .
  obtain tmp conn where f: "group_find_by_addr (conn_groups s) a = (tmp, conn)"
    by (cases "group_find_by_addr (conn_groups s) a")
  from assms Some f
  have "s1 = s \<or> (\<exists>g2. s1 = put_group g2 s \<and> gptr g2 = gptr gi \<and>
      set (conns gi) \<subseteq> set (conns g2))"
    by (auto simp: conn_reg_def Let_def split: if_splits)
  with gi show ?thesis by blast
qed

lemma register_packet_sends:
  "\<forall>(d, p) \<in> set (sends (snd (register_packet e c sn))). d = addr c"
  by (simp add: register_packet_def Let_def)

lemma not_member_result:
  assumes "\<not> is_srtla_reg1 buf" "\<not> is_srtla_reg2 buf"
    and "group_find_by_addr (conn_groups s) a = (rg, None)"
  shows "handle_srtla_data e ts (Some (buf, a)) s = Some (s, [])"
  using assms by (simp add: handle_srtla_data_def split: option.splits)

lemma replies_to_source:
  assumes ok: "registry_ok (conn_groups s)" and len: "length src = addr_len"
    and h: "handle_srtla_data e ts (Some (buf, src)) s = Some (s1, ev)"
  shows "\<forall>(d, p) \<in> set (sends ev). d = src"
proof (cases "is_srtla_reg1 buf")
  case True
  with h obtain r where "register_group e src buf ts s = Some (r, s1, ev)"
    by (auto simp: handle_srtla_data_def)
  from register_group_sends[OF this] show ?thesis by auto
next
  case n1: False
  show ?thesis
  proof (cases "is_srtla_reg2 buf")
    case True
    with h n1 obtain r where "conn_reg e src buf ts s = (r, s1, ev)"
      by (cases "conn_reg e src buf ts s") (auto simp: handle_srtla_data_def)
    from conn_reg_sends[OF this] show ?thesis by auto
  next
    case n2: False
    obtain rg rc where f: "group_find_by_addr (conn_groups s) src = (rg, rc)"
      by (cases "group_find_by_addr (conn_groups s) src")
    show ?thesis
    proof (cases rc)
      case None
      from not_member_result[OF n1 n2 f[unfolded None], of e ts] h show ?thesis by simp
    next
      case (Some c0)
      with f find_by_addr_conn_group[of "conn_groups s" src rg c0]
      obtain g' where f': "group_find_by_addr (conn_groups s) src = (Some g', Some c0)" by auto
      from member_data_shape[OF f' n1 n2 h] register_packet_sends[of e "c0\<lparr>last_rcvd := ts\<rparr>"]
      have "set (sends ev) \<subseteq> {(src, buf)} \<union>
          set (sends (snd (register_packet e (c0\<lparr>last_rcvd := ts\<rparr>) (get_srt_sn buf))))"
        by (auto split: if_splits)
      moreover from ok have gok: "\<forall>g \<in> set (conn_groups s). group_ok g"
        by (simp add: registry_ok_def)
      from find_by_addr_Some[OF gok len f'] have "addr c0 = src" by simp
      ultimately show ?thesis
        using register_packet_sends[of e "c0\<lparr>last_rcvd := ts\<rparr>" "get_srt_sn buf"] by auto
    qed
  qed
qed

lemma take_snoc_update: "Suc k = length xs \<Longrightarrow> take k xs @ [x] = xs[k := x]"
  by (induction xs arbitrary: k) (auto split: nat.splits)

lemma register_packet_acks:
  assumes r: "ring_ok c" and sn: "0 \<le> get_srt_sn buf"
  shows "map snd (filter (\<lambda>(d, p). d = addr c \<and> get_srt_type p = SRTLA_TYPE_ACK)
           (sends (snd (register_packet e (c\<lparr>last_rcvd := ts\<rparr>) (get_srt_sn buf))))) =
         (if length (take (recv_idx c) (recv_log c) @ [htobe32 (nat (get_srt_sn buf))]) = RECV_ACK_INT
          then [srtla_ack (take (recv_idx c) (recv_log c) @ [htobe32 (nat (get_srt_sn buf))])]
          else [])"
proof -
  from r have k: "recv_idx c < RECV_ACK_INT" and l: "length (recv_log c) = RECV_ACK_INT"
    by (simp_all add: ring_ok_def)
  let ?c = "c\<lparr>last_rcvd := ts\<rparr>"
  show ?thesis
  proof (cases "recv_idx c + 1 = RECV_ACK_INT")
    case True
    from register_packet_eq[of ?c "get_srt_sn buf" e] True sn get_srt_sn_bound[of buf]
    have s: "sends (snd (register_packet e ?c (get_srt_sn buf))) =
        [(addr c, htobe32 (SRTLA_TYPE_ACK * 2 ^ 16) @
           concat ((recv_log c)[recv_idx c := htobe32 (nat (get_srt_sn buf))]))]"
      by simp
    from True l have "Suc (recv_idx c) = length (recv_log c)" by simp
    from take_snoc_update[OF this]
    have w: "take (recv_idx c) (recv_log c) @ [htobe32 (nat (get_srt_sn buf))] =
        (recv_log c)[recv_idx c := htobe32 (nat (get_srt_sn buf))]" .
    have hd: "htobe32 (SRTLA_TYPE_ACK * 2 ^ 16) = [0x91, 0, 0, 0]"
      by (simp add: htobe32_def SRTLA_TYPE_ACK_def)
    have ty: "get_srt_type ([0x91, 0, 0, 0] @ xs) = SRTLA_TYPE_ACK" for xs
      by (simp add: get_srt_type_def SRTLA_TYPE_ACK_def)
    have len: "length (take (recv_idx c) (recv_log c) @ [htobe32 (nat (get_srt_sn buf))])
        = RECV_ACK_INT"
      using True l k by simp
    show ?thesis
      unfolding s if_P[OF len] unfolding w hd srtla_ack_def
      using ty by simp
  next
    case False
    with k have lt: "recv_idx c + 1 < RECV_ACK_INT" by simp
    from register_packet_lt[of ?c "get_srt_sn buf" e] lt sn get_srt_sn_bound[of buf]
    have s: "snd (register_packet e ?c (get_srt_sn buf)) = []" by simp
    from False l k show ?thesis by (simp add: s)
  qed
qed

text \<open>
  The effect of one step on a member connection \<open>c\<close>: the ACKs it sends to the address
  of \<open>c\<close>, and, when the address is still a member address afterwards, the ring of the
  connection.
\<close>

lemma step_acks:
  assumes ok: "registry_ok (conn_groups s)" and g: "g \<in> set (conn_groups s)"
    and c: "c \<in> set (conns g)"
    and sok: "step_ok st s" and ex: "exec st s = Some (s1, ev)"
  shows "acks_to (addr c) st ev =
     (if length (take (recv_idx c) (recv_log c) @ data_sn (addr c) st) = RECV_ACK_INT
      then [srtla_ack (take (recv_idx c) (recv_log c) @ data_sn (addr c) st)] else [])"
proof -
  from ok g c have ring: "ring_ok c" and len: "length (addr c) = addr_len"
    by (auto simp: registry_ok_def group_ok_def)
  then have k: "length (take (recv_idx c) (recv_log c)) \<noteq> RECV_ACK_INT"
    by (simp add: ring_ok_def)
  have none: "acks_to (addr c) st ev = [] \<Longrightarrow> data_sn (addr c) st = [] \<Longrightarrow> ?thesis"
    using k by simp
  show ?thesis
  proof (cases st)
    case (Srt_in e i rcv)
    then show ?thesis by (intro none) simp_all
  next
    case (Cleanup ts)
    then show ?thesis by (intro none) simp_all
  next
    case (Srtla_in e ts rcv)
    show ?thesis
    proof (cases rcv)
      case None
      with ex Srtla_in have "ev = [LogError ''Failed to read a srtla packet'']"
        by (simp add: handle_srtla_data_def)
      with Srtla_in None show ?thesis by (intro none) simp_all
    next
      case (Some p)
      obtain buf src where p: "p = (buf, src)" by (cases p)
      from ex Srtla_in Some p
      have h: "handle_srtla_data e ts (Some (buf, src)) s = Some (s1, ev)" by simp
      from sok Srtla_in Some p have ls: "length src = addr_len" by (simp add: dgram_ok_def)
      note st = Srtla_in Some p
      show ?thesis
      proof (cases "src = addr c")
        case False
        from replies_to_source[OF ok ls h] False
        have "acks_to (addr c) st ev = []" by (auto simp: st filter_empty_conv)
        moreover from False have "data_sn (addr c) st = []" by (simp add: st)
        ultimately show ?thesis using none by blast
      next
        case True
        from find_by_addr_member[OF ok g c] True
        have f: "group_find_by_addr (conn_groups s) src = (Some g, Some c)" by simp
        show ?thesis
        proof (cases "is_srtla_reg1 buf \<or> is_srtla_reg2 buf")
          case reg: True
          then have sn: "\<not> 0 \<le> get_srt_sn buf" using data_not_control[of buf] by blast
          have "\<forall>(d, p) \<in> set (sends ev). get_srt_type p \<noteq> SRTLA_TYPE_ACK"
          proof (cases "is_srtla_reg1 buf")
            case True
            with h obtain r where "register_group e src buf ts s = Some (r, s1, ev)"
              by (auto simp: handle_srtla_data_def)
            from register_group_sends[OF this] show ?thesis by auto
          next
            case False
            with reg h obtain r where "conn_reg e src buf ts s = (r, s1, ev)"
              by (cases "conn_reg e src buf ts s") (auto simp: handle_srtla_data_def)
            from conn_reg_sends[OF this] show ?thesis by auto
          qed
          then have "acks_to (addr c) st ev = []" by (auto simp: st filter_empty_conv)
          moreover from sn have "data_sn (addr c) st = []" by (simp add: st)
          ultimately show ?thesis using none by blast
        next
          case False
          then have n: "\<not> is_srtla_reg1 buf" "\<not> is_srtla_reg2 buf" by simp_all
          note sh = member_data_shape[OF f n h, THEN conjunct2]
          show ?thesis
          proof (cases "is_srtla_keepalive buf \<or> int (length buf) < SRT_MIN_LEN \<or>
              get_srt_sn buf < 0")
            case quiet: True
            then have "data_sn (addr c) st = []"
              using data_not_control(3)[of buf] by (auto simp: st)
            moreover from sh quiet have "acks_to (addr c) st ev = []"
              by (auto simp: st is_srtla_keepalive_def SRTLA_TYPE_KEEPALIVE_def
                    SRTLA_TYPE_ACK_def split: if_splits)
            ultimately show ?thesis using none by blast
          next
            case data: False
            then have sn: "0 \<le> get_srt_sn buf" and l: "SRT_MIN_LEN \<le> int (length buf)"
              and ka: "\<not> is_srtla_keepalive buf" by simp_all
            from sh data have se: "sends ev =
                sends (snd (register_packet e (c\<lparr>last_rcvd := ts\<rparr>) (get_srt_sn buf)))"
              by simp
            from sn l True have d: "data_sn (addr c) st = [htobe32 (nat (get_srt_sn buf))]"
              by (simp add: st)
            have a: "acks_to (addr c) st ev =
                map snd (filter (\<lambda>(d, p). d = addr c \<and> get_srt_type p = SRTLA_TYPE_ACK)
                  (sends (snd (register_packet e (c\<lparr>last_rcvd := ts\<rparr>) (get_srt_sn buf)))))"
              by (simp add: st se)
            show ?thesis unfolding a d by (rule register_packet_acks[OF ring sn])
          qed
        qed
      qed
    qed
  qed
qed

lemma exec_ok:
  assumes "registry_ok (conn_groups s)" and "step_ok st s" and "exec st s = Some (s1, ev)"
  shows "registry_ok (conn_groups s1)"
proof (cases st)
  case (Srtla_in e ts rcv)
  with assms show ?thesis by (auto intro: handle_srtla_data_ok)
next
  case (Srt_in e i rcv)
  with assms show ?thesis by (auto intro: handle_srt_data_ok)
next
  case (Cleanup ts)
  with assms show ?thesis by (auto intro: connection_cleanup_ok)
qed

lemma reachable_exec:
  assumes "reachable s" and "step_ok st s" and "exec st s = Some (s1, ev)"
  shows "reachable s1"
proof (cases st)
  case (Srtla_in e ts rcv)
  with assms show ?thesis by (auto intro: reach_srtla)
next
  case (Srt_in e i rcv)
  with assms show ?thesis by (auto intro: reach_srt)
next
  case (Cleanup ts)
  with assms show ?thesis by (auto intro: reach_cleanup)
qed

lemma sub_remove_group:
  "\<forall>g1 \<in> set (conn_groups (remove_group gp s)).
     \<exists>g0 \<in> set (conn_groups s). gptr g1 = gptr g0 \<and> set (conns g1) \<subseteq> set (conns g0)"
  by (auto simp: remove_group_def split: option.splits)

lemma sub_cleanup:
  assumes ok: "registry_ok (conn_groups s)" and c: "connection_cleanup ts s = (s1, ev)"
  shows "\<forall>g1 \<in> set (conn_groups s1).
     \<exists>g0 \<in> set (conn_groups s). gptr g1 = gptr g0 \<and> set (conns g1) \<subseteq> set (conns g0)"
proof (cases "ts < last_ran s + CLEANUP_PERIOD")
  case True
  with c have "s1 = s" by (simp add: connection_cleanup_def)
  then show ?thesis by auto
next
  case False
  then have "last_ran s + CLEANUP_PERIOD \<le> ts" by simp
  from cleanup_groups[OF ok this] c show ?thesis by auto
qed

lemma sub_srt_data:
  assumes "handle_srt_data e gp rcv s = (s1, ev)"
  shows "\<forall>g1 \<in> set (conn_groups s1).
     \<exists>g0 \<in> set (conn_groups s). gptr g1 = gptr g0 \<and> set (conns g1) \<subseteq> set (conns g0)"
proof -
  from assms have "s1 = s \<or> s1 = remove_group gp s"
    by (auto simp: handle_srt_data_def Let_def split: option.splits if_splits)
  with sub_remove_group[of gp s] show ?thesis by auto
qed

lemma put_conn_other:
  "c \<in> set cs \<Longrightarrow> cptr c \<noteq> cptr c' \<Longrightarrow> c \<in> set (put_conn c' cs)"
  by (force simp: put_conn_def)

lemma cptr_inj:
  "distinct (map cptr cs) \<Longrightarrow> c \<in> set cs \<Longrightarrow> c' \<in> set cs \<Longrightarrow> cptr c = cptr c' \<Longrightarrow> c = c'"
  by (auto simp: distinct_map dest: inj_onD)

text \<open>A handler run for a datagram that does not come from the connection, or a registration.\<close>

lemma other_source_keeps:
  assumes ok: "registry_ok (conn_groups s)" and g: "g \<in> set (conn_groups s)"
    and c: "c \<in> set (conns g)" and len: "length src = addr_len"
    and h: "handle_srtla_data e ts (Some (buf, src)) s = Some (s1, ev)"
    and o: "src \<noteq> addr c \<or> is_srtla_reg1 buf \<or> is_srtla_reg2 buf"
    and m: "member_at (addr c) s1"
  shows "\<exists>g1 \<in> set (conn_groups s1). gptr g1 = gptr g \<and> c \<in> set (conns g1)"
proof -
  from ok have gok: "\<forall>g \<in> set (conn_groups s). group_ok g"
    and dg: "distinct (map gptr (conn_groups s))" by (simp_all add: registry_ok_def)
  have same: "s1 = s \<Longrightarrow> ?thesis" using g c by auto
  have put: ?thesis
    if s1: "s1 = put_group g2 s" and gi: "gi \<in> set (conn_groups s)" and p: "gptr g2 = gptr gi"
      and keep: "gi = g \<Longrightarrow> c \<in> set (conns g2)" for g2 gi
  proof (cases "gptr g = gptr gi")
    case True
    from gptr_inj[OF dg g gi True] have e: "gi = g" by simp
    from put_group_mem[OF g, of g2] p True have "g2 \<in> set (conn_groups (put_group g2 s))" by simp
    with keep[OF e] p True s1 show ?thesis by auto
  next
    case False
    with g p have "g \<in> set (conn_groups (put_group g2 s))" by (force simp: put_group_def)
    with c s1 show ?thesis by auto
  qed
  show ?thesis
  proof (cases "is_srtla_reg1 buf")
    case True
    with h obtain r where "register_group e src buf ts s = Some (r, s1, ev)"
      by (auto simp: handle_srtla_data_def)
    from register_group_groups[OF this] g c show ?thesis by auto
  next
    case n1: False
    show ?thesis
    proof (cases "is_srtla_reg2 buf")
      case True
      with h n1 obtain r where "conn_reg e src buf ts s = (r, s1, ev)"
        by (cases "conn_reg e src buf ts s") (auto simp: handle_srtla_data_def)
      from conn_reg_groups[OF this] show ?thesis
      proof
        assume "s1 = s" then show ?thesis by (rule same)
      next
        assume "\<exists>gi g2. gi \<in> set (conn_groups s) \<and> s1 = put_group g2 s \<and>
           gptr g2 = gptr gi \<and> set (conns gi) \<subseteq> set (conns g2)"
        then obtain gi g2 where gi: "gi \<in> set (conn_groups s)" and s1: "s1 = put_group g2 s"
          and p: "gptr g2 = gptr gi" and sub: "set (conns gi) \<subseteq> set (conns g2)" by blast
        show ?thesis using c sub by (intro put[OF s1 gi p]) auto
      qed
    next
      case n2: False
      with n1 o have ne: "src \<noteq> addr c" by simp
      obtain rg rc where f: "group_find_by_addr (conn_groups s) src = (rg, rc)"
        by (cases "group_find_by_addr (conn_groups s) src")
      show ?thesis
      proof (cases rc)
        case None
        from not_member_result[OF n1 n2 f[unfolded None], of e ts] h show ?thesis
          by (intro same) simp
      next
        case (Some c0)
        with f find_by_addr_conn_group[of "conn_groups s" src rg c0]
        obtain g' where f': "group_find_by_addr (conn_groups s) src = (Some g', Some c0)" by auto
        from find_by_addr_Some[OF gok len f']
        have g': "g' \<in> set (conn_groups s)" and c0: "c0 \<in> set (conns g')" and a0: "addr c0 = src"
          by simp_all
        let ?cX = "if is_srtla_keepalive buf \<or> int (length buf) < SRT_MIN_LEN \<or> get_srt_sn buf < 0
                then c0\<lparr>last_rcvd := ts\<rparr>
                else fst (register_packet e (c0\<lparr>last_rcvd := ts\<rparr>) (get_srt_sn buf))"
        have pX: "cptr ?cX = cptr c0" by (simp add: register_packet_keeps)
        from member_data_shape[OF f' n1 n2 h, THEN conjunct1] show ?thesis
        proof
          assume "s1 = remove_group (Some g') s"
          with member_kept[OF ok g c sub_remove_group[of "Some g'" s]] m
          show ?thesis by (simp add: member_at_def)
        next
          assume "\<exists>gX. s1 = put_group gX s \<and> gptr gX = gptr g' \<and>
             conns gX = put_conn ?cX (conns g')"
          then obtain gX where s1: "s1 = put_group gX s" and p: "gptr gX = gptr g'"
            and cs: "conns gX = put_conn ?cX (conns g')" by blast
          show ?thesis
          proof (rule put[OF s1 g' p])
            assume e: "g' = g"
            from gok g have "distinct (map cptr (conns g))" by (simp add: group_ok_def)
            from cptr_inj[OF this c c0[unfolded e]] ne a0 have "cptr c \<noteq> cptr c0" by auto
            with put_conn_other[OF c, of ?cX] pX cs e show "c \<in> set (conns gX)" by simp
          qed
        qed
      qed
    qed
  qed
qed

lemma step_ring:
  assumes ok: "registry_ok (conn_groups s)" and g: "g \<in> set (conn_groups s)"
    and c: "c \<in> set (conns g)"
    and sok: "step_ok st s" and ex: "exec st s = Some (s1, ev)"
    and m: "member_at (addr c) s1"
  shows "\<exists>g1 c1. g1 \<in> set (conn_groups s1) \<and> gptr g1 = gptr g \<and>
     c1 \<in> set (conns g1) \<and> cptr c1 = cptr c \<and> addr c1 = addr c \<and>
     recv_idx c1 = length (window c @ data_sn (addr c) st) mod RECV_ACK_INT \<and>
     window c1 = (if length (window c @ data_sn (addr c) st) = RECV_ACK_INT then []
                  else window c @ data_sn (addr c) st)"
proof -
  from ok g c have ring: "ring_ok c" and len: "length (addr c) = addr_len"
    by (auto simp: registry_ok_def group_ok_def)
  then have k: "recv_idx c < RECV_ACK_INT" and l: "length (recv_log c) = RECV_ACK_INT"
    by (simp_all add: ring_ok_def)
  then have lw: "length (window c) = recv_idx c" by (simp add: window_def)
  have m': "\<exists>g1 \<in> set (conn_groups s1). addr c \<in> addr ` set (conns g1)"
    using m by (simp add: member_at_def)
  have same: ?thesis
    if "\<exists>g1 \<in> set (conn_groups s1). gptr g1 = gptr g \<and> c \<in> set (conns g1)"
      and "data_sn (addr c) st = []"
  proof -
    from that(1) obtain g1 where 1: "g1 \<in> set (conn_groups s1)" "gptr g1 = gptr g"
      "c \<in> set (conns g1)" by blast
    have 2: "cptr c = cptr c" "addr c = addr c" by simp_all
    have 3: "recv_idx c = length (window c @ data_sn (addr c) st) mod RECV_ACK_INT"
      using that(2) lw k by simp
    have 4: "window c = (if length (window c @ data_sn (addr c) st) = RECV_ACK_INT then []
                  else window c @ data_sn (addr c) st)"
      using that(2) lw k by simp
    show ?thesis
      by (intro exI conjI) (fact 1(1), fact 1(2), fact 1(3), fact 2(1), fact 2(2), fact 3, fact 4)
  qed
  show ?thesis
  proof (cases st)
    case (Srt_in e i rcv)
    with ex obtain gp where "handle_srt_data e gp rcv s = (s1, ev)" by auto
    from member_kept[OF ok g c sub_srt_data[OF this] m'] Srt_in show ?thesis
      by (intro same) simp_all
  next
    case (Cleanup ts)
    with ex have "connection_cleanup ts s = (s1, ev)" by simp
    from member_kept[OF ok g c sub_cleanup[OF ok this] m'] Cleanup show ?thesis
      by (intro same) simp_all
  next
    case (Srtla_in e ts rcv)
    show ?thesis
    proof (cases rcv)
      case None
      with ex Srtla_in have "s1 = s" by (simp add: handle_srtla_data_def)
      with g c Srtla_in None show ?thesis by (intro same) auto
    next
      case (Some p)
      obtain buf src where p: "p = (buf, src)" by (cases p)
      from ex Srtla_in Some p
      have h: "handle_srtla_data e ts (Some (buf, src)) s = Some (s1, ev)" by simp
      from sok Srtla_in Some p have ls: "length src = addr_len" by (simp add: dgram_ok_def)
      note st = Srtla_in Some p
      show ?thesis
      proof (cases "src \<noteq> addr c \<or> is_srtla_reg1 buf \<or> is_srtla_reg2 buf")
        case True
        then have "data_sn (addr c) st = []"
          using data_not_control(1,2)[of buf] by (auto simp: st)
        with other_source_keeps[OF ok g c ls h True m] show ?thesis by (intro same)
      next
        case False
        then have a: "src = addr c" and n: "\<not> is_srtla_reg1 buf" "\<not> is_srtla_reg2 buf"
          by simp_all
        from find_by_addr_member[OF ok g c] a
        have f: "group_find_by_addr (conn_groups s) src = (Some g, Some c)" by simp
        let ?c0 = "c\<lparr>last_rcvd := ts\<rparr>"
        let ?cX = "if is_srtla_keepalive buf \<or> int (length buf) < SRT_MIN_LEN \<or> get_srt_sn buf < 0
                then ?c0 else fst (register_packet e ?c0 (get_srt_sn buf))"
        from member_data_shape[OF f n h, THEN conjunct1]
        have "\<exists>gX. s1 = put_group gX s \<and> gptr gX = gptr g \<and> conns gX = put_conn ?cX (conns g)"
        proof
          assume r: "s1 = remove_group (Some g) s"
          from member_kept[OF ok g c sub_remove_group[of "Some g" s]] m' r
          have "\<exists>g1 \<in> set (conn_groups (remove_group (Some g) s)). gptr g1 = gptr g" by auto
          then have False by (auto simp: remove_group_def)
          then show ?thesis ..
        qed
        then obtain gX where s1: "s1 = put_group gX s" and pg: "gptr gX = gptr g"
          and cs: "conns gX = put_conn ?cX (conns g)" by blast
        have pX: "cptr ?cX = cptr c" "addr ?cX = addr c" by (simp_all add: register_packet_keeps)
        from put_group_mem[OF g pg] s1 have 1: "gX \<in> set (conn_groups s1)" by simp
        from put_conn_mem[OF c pX(1)] cs have 2: "?cX \<in> set (conns gX)" by simp
        have 3: "recv_idx ?cX = length (window c @ data_sn (addr c) st) mod RECV_ACK_INT \<and>
           window ?cX = (if length (window c @ data_sn (addr c) st) = RECV_ACK_INT then []
                  else window c @ data_sn (addr c) st)"
        proof (cases "is_srtla_keepalive buf \<or> int (length buf) < SRT_MIN_LEN \<or>
              get_srt_sn buf < 0")
          case True
          then have "data_sn (addr c) st = []"
            using data_not_control(3)[of buf] by (auto simp: st)
          with True lw k show ?thesis by (simp add: window_def)
        next
          case data: False
          then have sn: "0 \<le> get_srt_sn buf" and lb: "SRT_MIN_LEN \<le> int (length buf)" by simp_all
          with a have d: "data_sn (addr c) st = [htobe32 (nat (get_srt_sn buf))]"
            by (simp add: st)
          let ?w = "htobe32 (nat (get_srt_sn buf))"
          show ?thesis
          proof (cases "recv_idx c + 1 = RECV_ACK_INT")
            case True
            from register_packet_eq[of ?c0 "get_srt_sn buf" e] True sn get_srt_sn_bound[of buf]
            have "recv_idx (fst (register_packet e ?c0 (get_srt_sn buf))) = 0" by simp
            with data True lw show ?thesis by (simp add: d window_def)
          next
            case False
            with k have lt: "recv_idx c + 1 < RECV_ACK_INT" by simp
            from register_packet_lt[of ?c0 "get_srt_sn buf" e] lt sn get_srt_sn_bound[of buf]
            have r: "fst (register_packet e ?c0 (get_srt_sn buf)) =
                ?c0\<lparr>recv_log := (recv_log c)[recv_idx c := ?w], recv_idx := recv_idx c + 1\<rparr>"
              by simp
            from k l have "recv_idx c < length (recv_log c)" by simp
            from take_Suc_update[OF this]
            have "take (Suc (recv_idx c)) ((recv_log c)[recv_idx c := ?w]) = window c @ [?w]"
              by (simp add: window_def)
            with data lt lw show ?thesis by (simp add: d r window_def)
          qed
        qed
        show ?thesis
          by (intro exI conjI)
             (fact 1, fact pg, fact 2, fact pX(1), fact pX(2), fact 3[THEN conjunct1],
              fact 3[THEN conjunct2])
      qed
    qed
  qed
qed

text \<open>
  A handler gives no result only when the process stops: a REG1 from an unknown
  address, with room in the registry, for which \<^verbatim>\<open>/dev/urandom\<close> delivers fewer bytes
  than the assertion of \<open>get_random_bytes\<close> demands. Under the guarantee of the
  environment every event of a run is handled, and the run leads from reachable states
  to reachable states.
\<close>

lemma register_group_stops:
  "register_group e a in_buf ts s = None \<longleftrightarrow>
     length (conn_groups s) < MAX_GROUPS \<and> fst (group_find_by_addr (conn_groups s) a) = None \<and>
     length (urandom e) < SRTLA_ID_LEN div 2"
  by (auto simp: register_group_def new_srtla_conn_group_def get_random_bytes_def Let_def
        split: option.splits prod.splits if_splits)

lemma exec_stops:
  "exec st s = None \<longleftrightarrow>
     (\<exists>e ts buf src. st = Srtla_in e ts (Some (buf, src)) \<and> is_srtla_reg1 buf \<and>
        register_group e src buf ts s = None)"
proof (cases st)
  case (Srtla_in e ts rcv)
  show ?thesis
  proof (cases rcv)
    case None
    with Srtla_in show ?thesis by (simp add: handle_srtla_data_def)
  next
    case (Some p)
    obtain buf src where p: "p = (buf, src)" by (cases p)
    show ?thesis
      unfolding Srtla_in Some p
      by (auto simp: handle_srtla_data_def Let_def srt_send_def
            split: option.splits prod.splits if_splits)
  qed
qed simp_all

lemma admitted_Cons:
  assumes "admitted (st # sts) s"
  shows "\<exists>s1 ev. step_ok st s \<and> exec st s = Some (s1, ev) \<and> admitted sts s1 \<and>
     run (st # sts) s = (s1, ev) # run sts s1"
proof -
  from assms have sok: "step_ok st s" and r: "random_ok st" by simp_all
  have "exec st s \<noteq> None"
  proof
    assume "exec st s = None"
    with exec_stops[of st s] obtain e ts buf src where
      "st = Srtla_in e ts (Some (buf, src))" "register_group e src buf ts s = None" by blast
    with r register_group_stops[of e src buf ts s] show False by simp
  qed
  then obtain s1 ev where ex: "exec st s = Some (s1, ev)" by (cases "exec st s") auto
  with assms have "admitted sts s1" by simp
  with sok ex show ?thesis by simp
qed

lemma run_handles_all: "admitted sts s \<Longrightarrow> length (run sts s) = length sts"
proof (induction sts arbitrary: s)
  case Nil
  show ?case by simp
next
  case (Cons st sts)
  from admitted_Cons[OF Cons.prems] obtain s1 ev where "admitted sts s1"
    "run (st # sts) s = (s1, ev) # run sts s1" by blast
  with Cons.IH[of s1] show ?case by simp
qed

lemma run_reachable:
  "reachable s \<Longrightarrow> admitted sts s \<Longrightarrow> reachable (final s (run sts s))"
proof (induction sts arbitrary: s)
  case Nil
  then show ?case by (simp add: final_def)
next
  case (Cons st sts)
  from admitted_Cons[OF Cons.prems(2)] obtain s1 ev where sok: "step_ok st s"
    and ex: "exec st s = Some (s1, ev)" and ad: "admitted sts s1"
    and tr: "run (st # sts) s = (s1, ev) # run sts s1" by blast
  from Cons.IH[OF reachable_exec[OF Cons.prems(1) sok ex] ad] show ?case
    unfolding tr by (simp add: final_def)
qed

lemma blocks_window:
  assumes "length W \<le> RECV_ACK_INT"
  shows "(if length W = RECV_ACK_INT then [f W] else []) @
         map f (blocks RECV_ACK_INT ((if length W = RECV_ACK_INT then [] else W) @ rest)) =
         map f (blocks RECV_ACK_INT (W @ rest))"
  by (simp add: blocks_append RECV_ACK_INT_def)

lemma run_window:
  assumes "registry_ok (conn_groups s)" and "g \<in> set (conn_groups s)"
    and "c \<in> set (conns g)" and "admitted sts s"
    and "\<forall>r \<in> set (butlast (run sts s)). member_at (addr c) (fst r)"
  shows "run_acks_to (addr c) sts (run sts s) =
       map srtla_ack (blocks RECV_ACK_INT (window c @ concat (map (data_sn (addr c)) sts))) \<and>
     (member_at (addr c) (final s (run sts s)) \<longrightarrow>
       (\<exists>g' c'. g' \<in> set (conn_groups (final s (run sts s))) \<and> gptr g' = gptr g \<and>
          c' \<in> set (conns g') \<and> cptr c' = cptr c \<and> addr c' = addr c \<and>
          recv_idx c' =
            (recv_idx c + length (concat (map (data_sn (addr c)) sts))) mod RECV_ACK_INT))"
  using assms
proof (induction sts arbitrary: s g c)
  case Nil
  from Nil.prems(1,2,3) have "ring_ok c" by (auto simp: registry_ok_def group_ok_def)
  then have k: "recv_idx c < RECV_ACK_INT" and lw: "length (window c) < RECV_ACK_INT"
    by (simp_all add: ring_ok_def window_def)
  have 1: "run_acks_to (addr c) [] (run [] s) =
       map srtla_ack (blocks RECV_ACK_INT (window c @ concat (map (data_sn (addr c)) [])))"
    using lw by (simp add: run_acks_to_def blocks_short)
  have 2: "\<exists>g' c'. g' \<in> set (conn_groups (final s (run [] s))) \<and> gptr g' = gptr g \<and>
          c' \<in> set (conns g') \<and> cptr c' = cptr c \<and> addr c' = addr c \<and>
          recv_idx c' =
            (recv_idx c + length (concat (map (data_sn (addr c)) []))) mod RECV_ACK_INT"
    using Nil.prems(2,3) k by (intro exI[of _ g] exI[of _ c]) (simp add: final_def)
  from 1 2 show ?case by blast
next
  case (Cons st sts)
  let ?a = "addr c"
  let ?W = "window c @ data_sn ?a st"
  let ?D = "concat (map (data_sn ?a) sts)"
  from admitted_Cons[OF Cons.prems(4)] obtain s1 ev where sok: "step_ok st s"
    and ex: "exec st s = Some (s1, ev)" and ad: "admitted sts s1"
    and tr: "run (st # sts) s = (s1, ev) # run sts s1" by blast
  let ?tr' = "run sts s1"
  from Cons.prems(1,2,3) have "ring_ok c" by (auto simp: registry_ok_def group_ok_def)
  then have lw: "length (window c) = recv_idx c" and k: "recv_idx c < RECV_ACK_INT"
    by (simp_all add: ring_ok_def window_def)
  have ld: "length (data_sn ?a st) \<le> 1" by (cases "(?a, st)" rule: data_sn.cases) auto
  with lw k have lW: "length ?W \<le> RECV_ACK_INT" by simp
  from step_acks[OF Cons.prems(1,2,3) sok ex]
  have a0: "acks_to ?a st ev = (if length ?W = RECV_ACK_INT then [srtla_ack ?W] else [])"
    by (simp add: window_def)
  have ra: "run_acks_to ?a (st # sts) (run (st # sts) s) = acks_to ?a st ev @ run_acks_to ?a sts ?tr'"
    unfolding tr by (simp add: run_acks_to_def)
  have fin: "final s (run (st # sts) s) = final s1 ?tr'" unfolding tr by (simp add: final_def)
  have cc: "concat (map (data_sn ?a) (st # sts)) = data_sn ?a st @ ?D" by simp
  show ?case
  proof (cases "member_at ?a s1")
    case True
    from step_ring[OF Cons.prems(1,2,3) sok ex True]
    obtain g1 c1 where g1: "g1 \<in> set (conn_groups s1)" and p1: "gptr g1 = gptr g"
      and c1: "c1 \<in> set (conns g1)" and q1: "cptr c1 = cptr c" and a1: "addr c1 = addr c"
      and i1: "recv_idx c1 = length ?W mod RECV_ACK_INT"
      and w1: "window c1 = (if length ?W = RECV_ACK_INT then [] else ?W)" by blast
    from exec_ok[OF Cons.prems(1) sok ex] have ok1: "registry_ok (conn_groups s1)" .
    have "set (butlast ?tr') \<subseteq> set (butlast (run (st # sts) s))" unfolding tr by auto
    with Cons.prems(5) have sv: "\<forall>r \<in> set (butlast ?tr'). member_at (addr c1) (fst r)"
      unfolding a1 by blast
    note ih = Cons.IH[OF ok1 g1 c1 ad sv, unfolded a1 p1 q1]
    have 1: "run_acks_to ?a (st # sts) (run (st # sts) s) =
        map srtla_ack (blocks RECV_ACK_INT (window c @ concat (map (data_sn ?a) (st # sts))))"
      unfolding ra a0 ih[THEN conjunct1] w1 cc
      using blocks_window[OF lW, of srtla_ack ?D] by simp
    have 2: "\<exists>g' c'. g' \<in> set (conn_groups (final s (run (st # sts) s))) \<and> gptr g' = gptr g \<and>
          c' \<in> set (conns g') \<and> cptr c' = cptr c \<and> addr c' = addr c \<and>
          recv_idx c' =
            (recv_idx c + length (concat (map (data_sn ?a) (st # sts)))) mod RECV_ACK_INT"
      if "member_at ?a (final s (run (st # sts) s))"
    proof -
      from ih[THEN conjunct2] that fin
      obtain g' c' where 3: "g' \<in> set (conn_groups (final s1 ?tr'))" "gptr g' = gptr g"
        "c' \<in> set (conns g')" "cptr c' = cptr c" "addr c' = addr c"
        and r: "recv_idx c' = (recv_idx c1 + length ?D) mod RECV_ACK_INT" by auto
      have "(recv_idx c1 + length ?D) mod RECV_ACK_INT =
          (recv_idx c + length (data_sn ?a st @ ?D)) mod RECV_ACK_INT"
        unfolding i1 by (simp add: lw mod_add_left_eq add.assoc)
      with r have 4: "recv_idx c' =
          (recv_idx c + length (concat (map (data_sn ?a) (st # sts)))) mod RECV_ACK_INT"
        unfolding cc by simp
      show ?thesis
        unfolding fin
        by (intro exI conjI) (fact 3(1), fact 3(2), fact 3(3), fact 3(4), fact 3(5), fact 4)
    qed
    from 1 2 show ?thesis by blast
  next
    case False
    have e: "?tr' = []"
    proof (rule ccontr)
      assume "?tr' \<noteq> []"
      then have "(s1, ev) \<in> set (butlast (run (st # sts) s))" unfolding tr by simp
      with Cons.prems(5) False show False by auto
    qed
    with run_handles_all[OF ad] have sts: "sts = []" by simp
    have b: "blocks RECV_ACK_INT ?W = (if length ?W = RECV_ACK_INT then [?W] else [])"
    proof (cases "length ?W = RECV_ACK_INT")
      case True
      have pos: "0 < RECV_ACK_INT" by (simp add: RECV_ACK_INT_def)
      have "blocks RECV_ACK_INT (?W @ []) = ?W # blocks RECV_ACK_INT []"
        by (rule blocks_append[OF pos True])
      moreover have "blocks RECV_ACK_INT ([] :: bytes list) = []"
        by (rule blocks_short) (simp add: RECV_ACK_INT_def)
      ultimately show ?thesis using True by simp
    next
      case False
      with lW have "length ?W < RECV_ACK_INT" by simp
      from blocks_short[OF this] False show ?thesis by simp
    qed
    have 1: "run_acks_to ?a (st # sts) (run (st # sts) s) =
        map srtla_ack (blocks RECV_ACK_INT (window c @ concat (map (data_sn ?a) (st # sts))))"
      unfolding ra a0 e by (simp add: sts run_acks_to_def b)
    from False have "\<not> member_at ?a (final s (run (st # sts) s))"
      unfolding fin e by (simp add: final_def)
    with 1 show ?thesis by blast
  qed
qed

lemma example_run_eval:
  "admitted example_run example_state \<and>
   list_all (\<lambda>r. member_at (peer 2) (fst r)) (butlast (run example_run example_state)) \<and>
   member_at (peer 2) (final example_state (run example_run example_state)) \<and>
   map (\<lambda>g. map (\<lambda>c. (addr c, recv_idx c)) (conns g))
     (conn_groups (final example_state (run example_run example_state)))
       = [[(peer 1, 2), (peer 2, 1), (peer 3, 0)]]"
  by (simp add: example_run_def final_def member_at_def live_ptrs_def dgram_ok_def
        handle_srtla_data_def handle_srt_data_def connection_cleanup_def cleanup_group_def
        conn_reg_def new_srtla_conn_def register_packet_def srt_send_def recv_len_def
        put_group_def put_conn_def remove_group_def const_time_cmp_def Let_def
        srt_data_pkt_def keepalive_pkt_def
        example_defs const_defs codec_defs replicate_numeral)

lemma blocks_set: "blk \<in> set (blocks n xs) \<Longrightarrow> set blk \<subseteq> set xs"
proof (induction n xs rule: blocks.induct)
  case (1 n xs)
  show ?case
  proof (cases "n = 0 \<or> length xs < n")
    case True
    with "1.prems" show ?thesis by (simp add: blocks.simps)
  next
    case False
    with "1.prems" have "blk = take n xs \<or> blk \<in> set (blocks n (drop n xs))"
      by (subst (asm) blocks.simps) simp
    with False "1.IH" show ?thesis by (auto dest: in_set_takeD in_set_dropD)
  qed
qed

lemma length_concat_words: "\<forall>w \<in> set ws. length w = 4 \<Longrightarrow> length (concat ws) = 4 * length ws"
  by (induction ws) auto

lemma data_sn_words: "\<forall>w \<in> set (concat (map (data_sn a) sts)). length w = 4"
proof -
  have "\<forall>w \<in> set (data_sn a st). length w = 4" for st
    by (cases "(a, st)" rule: data_sn.cases) (auto simp: htobe32_def)
  then show ?thesis by auto
qed

text \<open>
  C4. Take a reachable state, a member connection \<open>c\<close> of a group \<open>g\<close>, and any run of
  the loop from there: datagrams on the listening socket from any source (data packets,
  keepalives, control packets and registrations, of this connection, of other
  connections of \<open>g\<close> and of other groups), datagrams on upstream sockets and cleanup
  runs, in any order, such that the address of \<open>c\<close> is a member address after every
  step but possibly the last. Every event is handled, and the SRTLA ACKs sent to the
  address of \<open>c\<close> are exactly one per complete block of \<open>RECV_ACK_INT\<close> in the sequence
  made of the numbers in the window of \<open>c\<close> at the start, followed by the sequence
  numbers of the SRT data packets read from the address of \<open>c\<close>, in arrival order;
  every one has 44 bytes, the header 91 00 00 00 and the ten big-endian numbers of its
  block. If the address is still a member address at the end, it is the address of the
  same connection object of the same group, and its ring index is the index at the
  start plus the number of those data packets, modulo \<open>RECV_ACK_INT\<close>. So the index goes
  back to 0 with every ACK, and nothing but an SRT data packet from its own address
  advances the ring of a connection: no keepalive, no control packet, no registration,
  no packet of another connection, no upstream datagram and no cleanup run.
\<close>

theorem srtla_ack_window:
  assumes "reachable s" and "g \<in> set (conn_groups s)" and "c \<in> set (conns g)"
    and "admitted sts s"
    and "\<forall>r \<in> set (butlast (run sts s)). member_at (addr c) (fst r)"
  shows "length (run sts s) = length sts \<and>
     run_acks_to (addr c) sts (run sts s) =
       map srtla_ack (blocks RECV_ACK_INT (window c @ concat (map (data_sn (addr c)) sts))) \<and>
     (\<forall>p \<in> set (run_acks_to (addr c) sts (run sts s)). length p = 44) \<and>
     (member_at (addr c) (final s (run sts s)) \<longrightarrow>
       (\<exists>g' c'. g' \<in> set (conn_groups (final s (run sts s))) \<and> gptr g' = gptr g \<and>
          c' \<in> set (conns g') \<and> cptr c' = cptr c \<and> addr c' = addr c \<and>
          recv_idx c' =
            (recv_idx c + length (concat (map (data_sn (addr c)) sts))) mod RECV_ACK_INT))"
proof -
  from assms(1) have ok: "registry_ok (conn_groups s)" by (rule reachable_registry_ok)
  note w = run_window[OF ok assms(2,3,4,5)]
  from ok assms(2,3) have "ring_ok c" by (auto simp: registry_ok_def group_ok_def)
  then have "\<forall>w \<in> set (window c). length w = 4"
    by (auto simp: ring_ok_def window_def list_all_iff dest: in_set_takeD)
  with data_sn_words[of "addr c" sts]
  have words: "\<forall>w \<in> set (window c @ concat (map (data_sn (addr c)) sts)). length w = 4"
    by auto
  have "length (srtla_ack blk) = 44"
    if "blk \<in> set (blocks RECV_ACK_INT (window c @ concat (map (data_sn (addr c)) sts)))"
    for blk
  proof -
    from blocks_length[OF that] have 1: "length blk = RECV_ACK_INT" .
    from blocks_set[OF that] words have "\<forall>w \<in> set blk. length w = 4" by blast
    from length_concat_words[OF this] 1 show ?thesis
      by (simp add: srtla_ack_def RECV_ACK_INT_def)
  qed
  then have l: "\<forall>p \<in> set (run_acks_to (addr c) sts (run sts s)). length p = 44"
    unfolding w[THEN conjunct1] by auto
  from w l run_handles_all[OF assms(4)] show ?thesis by blast
qed

theorem srtla_ack_window_witness:
  "reachable example_state \<and> example_group \<in> set (conn_groups example_state) \<and>
   example_conn 12 2 \<in> set (conns example_group) \<and>
   admitted example_run example_state \<and>
   list_all (\<lambda>r. member_at (peer 2) (fst r)) (butlast (run example_run example_state)) \<and>
   member_at (peer 2) (final example_state (run example_run example_state)) \<and>
   window (example_conn 12 2) = [] \<and> recv_idx (example_conn 12 2) = 0 \<and>
   length (run example_run example_state) = 18 \<and>
   concat (map (data_sn (peer 2)) example_run) =
     map htobe32 [1, 2, 3, 4, 5, 6, 7, 8, 9, 10, 11] \<and>
   concat (map (data_sn (peer 1)) example_run) = map htobe32 [101, 102] \<and>
   run_acks_to (peer 2) example_run (run example_run example_state) =
     [[0x91, 0, 0, 0,  0, 0, 0, 1,  0, 0, 0, 2,  0, 0, 0, 3,  0, 0, 0, 4,
       0, 0, 0, 5,  0, 0, 0, 6,  0, 0, 0, 7,  0, 0, 0, 8,  0, 0, 0, 9,
       0, 0, 0, 10]] \<and>
   (\<exists>g' \<in> set (conn_groups (final example_state (run example_run example_state))).
       gptr g' = 1 \<and>
       (\<exists>c' \<in> set (conns g'). cptr c' = 12 \<and> addr c' = peer 2 \<and> recv_idx c' = 1)) \<and>
   map (\<lambda>g. map (\<lambda>c. (addr c, recv_idx c)) (conns g))
     (conn_groups (final example_state (run example_run example_state))) =
     [[(peer 1, 2), (peer 2, 1), (peer 3, 0)]]"
proof -
  have g: "example_group \<in> set (conn_groups example_state)"
    by (simp add: example_state_def)
  have c: "example_conn 12 2 \<in> set (conns example_group)"
    by (simp add: example_group_def)
  have a: "addr (example_conn 12 2) = peer 2" and w0: "window (example_conn 12 2) = []"
    and i0: "recv_idx (example_conn 12 2) = 0" and p0: "cptr (example_conn 12 2) = 12"
    and q0: "gptr example_group = 1"
    by (simp_all add: example_conn_def example_group_def window_def)
  note ad = example_run_eval[THEN conjunct1]
    and sv = example_run_eval[THEN conjunct2, THEN conjunct1]
    and m = example_run_eval[THEN conjunct2, THEN conjunct2, THEN conjunct1]
    and fin = example_run_eval[THEN conjunct2, THEN conjunct2, THEN conjunct2]
  from sv have sv': "\<forall>r \<in> set (butlast (run example_run example_state)).
      member_at (addr (example_conn 12 2)) (fst r)"
    by (simp add: list_all_iff a)
  have n: "length example_run = 18" by (simp add: example_run_def)
  have d2: "concat (map (data_sn (peer 2)) example_run) =
     map htobe32 [1, 2, 3, 4, 5, 6, 7, 8, 9, 10, 11]"
    by (simp add: example_run_def srt_data_pkt_def keepalive_pkt_def srt_ack_pkt_def
          reg2_pkt_def peer_def codec_defs const_defs)
  have d1: "concat (map (data_sn (peer 1)) example_run) = map htobe32 [101, 102]"
    by (simp add: example_run_def srt_data_pkt_def keepalive_pkt_def srt_ack_pkt_def
          reg2_pkt_def peer_def codec_defs const_defs)
  have b: "map srtla_ack (blocks RECV_ACK_INT
        (window (example_conn 12 2) @ concat (map (data_sn (peer 2)) example_run))) =
      [[0x91, 0, 0, 0,  0, 0, 0, 1,  0, 0, 0, 2,  0, 0, 0, 3,  0, 0, 0, 4,
        0, 0, 0, 5,  0, 0, 0, 6,  0, 0, 0, 7,  0, 0, 0, 8,  0, 0, 0, 9,
        0, 0, 0, 10]]"
    unfolding d2 w0
    by (simp add: blocks.simps RECV_ACK_INT_def srtla_ack_def htobe32_def)
  note res = srtla_ack_window[OF reachable_example g c ad sv', unfolded a p0 q0 i0]
  from res[THEN conjunct1] n
  have len: "length (run example_run example_state) = 18" by simp
  from res[THEN conjunct2, THEN conjunct1]
  have k: "run_acks_to (peer 2) example_run (run example_run example_state) =
      [[0x91, 0, 0, 0,  0, 0, 0, 1,  0, 0, 0, 2,  0, 0, 0, 3,  0, 0, 0, 4,
        0, 0, 0, 5,  0, 0, 0, 6,  0, 0, 0, 7,  0, 0, 0, 8,  0, 0, 0, 9,
        0, 0, 0, 10]]"
    unfolding b .
  from res[THEN conjunct2, THEN conjunct2, THEN conjunct2] m
  obtain g' c' where "g' \<in> set (conn_groups (final example_state (run example_run example_state)))"
    "gptr g' = 1" "c' \<in> set (conns g')" "cptr c' = 12" "addr c' = peer 2"
    "recv_idx c' = (0 + length (concat (map (data_sn (peer 2)) example_run))) mod RECV_ACK_INT"
    by blast
  then have ring: "\<exists>g' \<in> set (conn_groups (final example_state (run example_run example_state))).
       gptr g' = 1 \<and>
       (\<exists>c' \<in> set (conns g'). cptr c' = 12 \<and> addr c' = peer 2 \<and> recv_idx c' = 1)"
    unfolding d2 by (auto simp: RECV_ACK_INT_def)
  from reachable_example g c ad sv m w0 i0 len d2 d1 k ring fin show ?thesis by simp
qed

end
